theory Spec2Isabelle
  imports Main "HOL-Library.AList"
begin

section \<open>Values shared by the scraper and the transformer\<close>

text \<open>
  The program handles decoded JSON documents (\<^verbatim>\<open>json.loads\<close>, \<^verbatim>\<open>response.json()\<close>)
  as Python values. A Python \<^verbatim>\<open>dict\<close> keeps its insertion order, so an object is an
  association list; \<^verbatim>\<open>d.get(k, default)\<close> reads it with \<open>map_of\<close>. JSON numbers are
  modelled by the integers (floating point numbers are left out). A str is a list of
  characters, each standing for a code point below 256 (ASCII and Latin-1); the character
  classes below are Python's on such text, and text with code points beyond that range is
  outside the model.
\<close>

datatype json =
    JNull
  | JBool bool
  | JInt int
  | JStr string
  | JArr "json list"
  | JObj "(string \<times> json) list"

text \<open>
  The exceptions the modelled code can raise. A function that can raise returns
  \<open>py_exception + 'a\<close>, with \<open>Inl\<close> for the raised exception.
\<close>

datatype py_exception = AttributeError | TypeError | UnboundLocalError

definition bind_exn :: "py_exception + 'a \<Rightarrow> ('a \<Rightarrow> py_exception + 'b) \<Rightarrow> py_exception + 'b" where
  "bind_exn m f = (case m of Inl e \<Rightarrow> Inl e | Inr x \<Rightarrow> f x)"

text \<open>Python truthiness (\<^verbatim>\<open>not x\<close>, \<^verbatim>\<open>x or y\<close>, \<^verbatim>\<open>if x\<close>) of a decoded JSON value.\<close>

fun truthy :: "json \<Rightarrow> bool" where
  "truthy JNull = False"
| "truthy (JBool b) = b"
| "truthy (JInt n) = (n \<noteq> 0)"
| "truthy (JStr s) = (s \<noteq> [])"
| "truthy (JArr xs) = (xs \<noteq> [])"
| "truthy (JObj kvs) = (kvs \<noteq> [])"

text \<open>\<^verbatim>\<open>x or default\<close>.\<close>

definition py_or :: "json \<Rightarrow> json \<Rightarrow> json" where
  "py_or x d = (if truthy x then x else d)"

text \<open>
  \<^verbatim>\<open>obj.get(key, default)\<close>: only a dict has the method; on every other decoded JSON
  value (None, bool, int, str, list) the attribute lookup raises AttributeError.
\<close>

fun py_get :: "json \<Rightarrow> string \<Rightarrow> json \<Rightarrow> py_exception + json" where
  "py_get (JObj kvs) k d = Inr (case map_of kvs k of None \<Rightarrow> d | Some v \<Rightarrow> v)"
| "py_get _ k d = Inl AttributeError"

text \<open>
  \<^verbatim>\<open>for x in value\<close>: a list yields its elements, a dict its keys, a str its
  characters (each a str of length one); None, bool and int are not iterable (TypeError).
\<close>

fun py_iter :: "json \<Rightarrow> py_exception + json list" where
  "py_iter (JArr xs) = Inr xs"
| "py_iter (JObj kvs) = Inr (map (\<lambda>kv. JStr (fst kv)) kvs)"
| "py_iter (JStr s) = Inr (map (\<lambda>c. JStr [c]) s)"
| "py_iter _ = Inl TypeError"

subsection \<open>Formatting values into text\<close>

definition digit_char :: "nat \<Rightarrow> char" where
  "digit_char d = ''0123456789'' ! (d mod 10)"

fun str_nat :: "nat \<Rightarrow> string" where
  "str_nat n = (if n < 10 then [digit_char n] else str_nat (n div 10) @ [digit_char (n mod 10)])"

definition str_int :: "int \<Rightarrow> string" where
  "str_int i = (if i < 0 then CHR ''-'' # str_nat (nat (- i)) else str_nat (nat i))"

fun join :: "string \<Rightarrow> string list \<Rightarrow> string" where
  "join sep [] = []"
| "join sep [x] = x"
| "join sep (x # y # ys) = x @ sep @ join sep (y # ys)"

definition hex_digit :: "nat \<Rightarrow> char" where
  "hex_digit d = ''0123456789abcdef'' ! (d mod 16)"

text \<open>
  \<^verbatim>\<open>repr\<close> of a str: between single quotes, or between double quotes when the str
  holds a single quote and no double quote; the quote character and the backslash are
  escaped, tab, line feed and carriage return are written \<^verbatim>\<open>\t\<close>, \<^verbatim>\<open>\n\<close>, \<^verbatim>\<open>\r\<close>, and
  every other code point that is not printable is written \<^verbatim>\<open>\xhh\<close>.
\<close>

definition repr_char :: "char \<Rightarrow> char \<Rightarrow> string" where
  "repr_char quote c =
     (let n = (of_char c :: nat) in
      if c = quote \<or> c = CHR 0x5C then [CHR 0x5C, c]
      else if n = 9 then [CHR 0x5C, CHR ''t'']
      else if n = 10 then [CHR 0x5C, CHR ''n'']
      else if n = 13 then [CHR 0x5C, CHR ''r'']
      else if n < 32 \<or> (127 \<le> n \<and> n \<le> 160) \<or> n = 173
        then [CHR 0x5C, CHR ''x'', hex_digit (n div 16), hex_digit n]
      else [c])"

definition repr_str :: "string \<Rightarrow> string" where
  "repr_str s =
     (let quote = (if CHR 0x27 \<in> set s \<and> CHR 0x22 \<notin> set s then CHR 0x22 else CHR 0x27)
      in [quote] @ concat (map (repr_char quote) s) @ [quote])"

text \<open>\<^verbatim>\<open>repr(value)\<close>, which an f-string uses for the elements of a list or dict.\<close>

fun py_repr :: "json \<Rightarrow> string" where
  "py_repr JNull = ''None''"
| "py_repr (JBool b) = (if b then ''True'' else ''False'')"
| "py_repr (JInt n) = str_int n"
| "py_repr (JStr s) = repr_str s"
| "py_repr (JArr xs) = ''['' @ join '', '' (map py_repr xs) @ '']''"
| "py_repr (JObj kvs) =
     ''{'' @ join '', '' (map (\<lambda>kv. repr_str (fst kv) @ '': '' @ py_repr (snd kv)) kvs) @ ''}''"

text \<open>\<^verbatim>\<open>f"{value}"\<close>, that is \<^verbatim>\<open>str(value)\<close>: a str is itself.\<close>

fun py_str :: "json \<Rightarrow> string" where
  "py_str (JStr s) = s"
| "py_str v = py_repr v"

section \<open>The transformer (src/transformer.py)\<close>

subsection \<open>Character classes of the regular expressions\<close>

definition is_space :: "char \<Rightarrow> bool" where
  \<comment> \<open>\<^verbatim>\<open>\s\<close> and \<^verbatim>\<open>str.strip()\<close>: tab, LF, VT, FF, CR, the separators 0x1C to 0x1F, space,
      next line (0x85) and no-break space (0xA0)\<close>
  "is_space c =
     (let n = (of_char c :: nat) in (9 \<le> n \<and> n \<le> 13) \<or> (28 \<le> n \<and> n \<le> 32) \<or> n = 133 \<or> n = 160)"

definition is_digit :: "char \<Rightarrow> bool" where
  \<comment> \<open>\<^verbatim>\<open>\d\<close>\<close>
  "is_digit c = (let n = (of_char c :: nat) in 48 \<le> n \<and> n \<le> 57)"

definition is_word :: "char \<Rightarrow> bool" where
  \<comment> \<open>\<^verbatim>\<open>\w\<close>: the underscore and what \<^verbatim>\<open>str.isalnum\<close> accepts: the ASCII letters and
      digits, the Latin-1 letters, and the Latin-1 superscript digits and fractions\<close>
  "is_word c = (let n = (of_char c :: nat) in
     (48 \<le> n \<and> n \<le> 57) \<or> (65 \<le> n \<and> n \<le> 90) \<or> n = 95 \<or> (97 \<le> n \<and> n \<le> 122) \<or>
     n = 170 \<or> n = 178 \<or> n = 179 \<or> n = 181 \<or> n = 185 \<or> n = 186 \<or> (188 \<le> n \<and> n \<le> 190) \<or>
     (192 \<le> n \<and> n \<le> 214) \<or> (216 \<le> n \<and> n \<le> 246) \<or> 248 \<le> n)"

definition is_alpha :: "char \<Rightarrow> bool" where
  \<comment> \<open>an ASCII letter, with which the name of an HTML tag starts\<close>
  "is_alpha c = (let n = (of_char c :: nat) in (65 \<le> n \<and> n \<le> 90) \<or> (97 \<le> n \<and> n \<le> 122))"

subsection \<open>The fragment of Python's \<^verbatim>\<open>re\<close> that the program uses\<close>

text \<open>
  Each of the five patterns of \<^verbatim>\<open>_clean_text\<close> is a sequence of character classes
  with a greedy repetition count, and \<^verbatim>\<open>\b\<close>. \<open>Rep c lo hi\<close> is the class \<open>c\<close> repeated
  at least \<open>lo\<close> and at most \<open>hi\<close> times (\<open>None\<close>: unbounded); a single character is
  \<open>Rep c 1 (Some 1)\<close>.
\<close>

datatype item = Rep "char \<Rightarrow> bool" nat "nat option" | WordBoundary

definition lit :: "char \<Rightarrow> item" where
  "lit ch = Rep (\<lambda>c. c = ch) 1 (Some 1)"

definition plus :: "(char \<Rightarrow> bool) \<Rightarrow> item" where
  "plus cls = Rep cls 1 None"

definition at_boundary :: "char option \<Rightarrow> string \<Rightarrow> bool" where
  \<comment> \<open>\<^verbatim>\<open>\b\<close>: exactly one of the characters before and after the position is a word character\<close>
  "at_boundary prev s =
     ((case prev of None \<Rightarrow> False | Some c \<Rightarrow> is_word c) \<noteq> (case s of [] \<Rightarrow> False | c # _ \<Rightarrow> is_word c))"

definition prev_after :: "nat \<Rightarrow> char option \<Rightarrow> string \<Rightarrow> char option" where
  \<comment> \<open>the character before the position reached by consuming \<open>n\<close> characters of \<open>s\<close>\<close>
  "prev_after n prev s = (if n = 0 then prev else Some (s ! (n - 1)))"

text \<open>
  The backtracking matcher, anchored at the start of \<open>s\<close> (\<open>prev\<close> is the character
  before it). It returns the text matched by each item of the pattern. A repetition first
  takes as many characters as it can and gives them back one at a time (\<open>try_rep\<close>), as
  the greedy quantifiers of \<^verbatim>\<open>re\<close> do.
\<close>

fun match_items :: "item list \<Rightarrow> char option \<Rightarrow> string \<Rightarrow> string list option"
  and try_rep :: "item list \<Rightarrow> nat \<Rightarrow> nat \<Rightarrow> char option \<Rightarrow> string \<Rightarrow> string list option" where
  "match_items [] prev s = Some []"
| "match_items (WordBoundary # its) prev s =
     (if at_boundary prev s then map_option (\<lambda>segs. [] # segs) (match_items its prev s) else None)"
| "match_items (Rep cls lo hi # its) prev s =
     (let avail = length (takeWhile cls s);
          top = (case hi of None \<Rightarrow> avail | Some h \<Rightarrow> min h avail)
      in try_rep its lo top prev s)"
| "try_rep its lo n prev s =
     (if n < lo then None
      else case match_items its (prev_after n prev s) (drop n s) of
             Some segs \<Rightarrow> Some (take n s # segs)
           | None \<Rightarrow> (if n = 0 then None else try_rep its lo (n - 1) prev s))"

text \<open>
  \<^verbatim>\<open>re.sub(pattern, repl, s)\<close>: the leftmost match is replaced and the scan goes on
  behind it (\<open>skip\<close> counts the characters of the match still to pass). \<open>repl\<close> builds
  the replacement from the texts of the items (\<^verbatim>\<open>\1\<close> is the text of the group's item).
  The patterns of this program never match the empty string.
\<close>

fun sub_from :: "item list \<Rightarrow> (string list \<Rightarrow> string) \<Rightarrow> char option \<Rightarrow> nat \<Rightarrow> string \<Rightarrow> string" where
  "sub_from pat repl prev skip [] = []"
| "sub_from pat repl prev skip (c # cs) =
     (if 0 < skip then sub_from pat repl (Some c) (skip - 1) cs
      else case match_items pat prev (c # cs) of
             Some segs \<Rightarrow> repl segs @ sub_from pat repl (Some c) (length (concat segs) - 1) cs
           | None \<Rightarrow> c # sub_from pat repl (Some c) 0 cs)"

definition re_sub :: "item list \<Rightarrow> (string list \<Rightarrow> string) \<Rightarrow> string \<Rightarrow> string" where
  "re_sub pat repl s = sub_from pat repl None 0 s"

definition strip :: "string \<Rightarrow> string" where
  \<comment> \<open>\<^verbatim>\<open>str.strip()\<close>\<close>
  "strip s = rev (dropWhile is_space (rev (dropWhile is_space s)))"

subsection \<open>The patterns of \<^verbatim>\<open>_clean_text\<close>\<close>

definition markup_pattern :: "item list" where
  \<comment> \<open>\<^verbatim>\<open>\{[^\}]+\}\<close>\<close>
  "markup_pattern = [lit CHR ''{'', plus (\<lambda>c. c \<noteq> CHR ''}''), lit CHR ''}'']"

definition link_pattern :: "item list" where
  \<comment> \<open>\<^verbatim>\<open>\[([^\|\]]+)\|[^\]]+\]\<close>\<close>
  "link_pattern =
     [lit CHR ''['', plus (\<lambda>c. c \<noteq> CHR ''|'' \<and> c \<noteq> CHR '']''), lit CHR ''|'',
      plus (\<lambda>c. c \<noteq> CHR '']''), lit CHR '']'']"

definition link_label :: "string list \<Rightarrow> string" where
  \<comment> \<open>\<^verbatim>\<open>\1\<close>: the text of the second item of \<open>link_pattern\<close>\<close>
  "link_label segs = (case segs of _ # label # _ \<Rightarrow> label | _ \<Rightarrow> [])"

definition email_pattern :: "item list" where
  \<comment> \<open>\<^verbatim>\<open>\S+@\S+\.\S+\<close>\<close>
  "email_pattern =
     [plus (\<lambda>c. \<not> is_space c), lit CHR ''@'', plus (\<lambda>c. \<not> is_space c), lit CHR ''.'',
      plus (\<lambda>c. \<not> is_space c)]"

definition ip_pattern :: "item list" where
  \<comment> \<open>\<^verbatim>\<open>\b\d{1,3}\.\d{1,3}\.\d{1,3}\.\d{1,3}\b\<close>\<close>
  "ip_pattern =
     [WordBoundary, Rep is_digit 1 (Some 3), lit CHR ''.'', Rep is_digit 1 (Some 3), lit CHR ''.'',
      Rep is_digit 1 (Some 3), lit CHR ''.'', Rep is_digit 1 (Some 3), WordBoundary]"

definition space_pattern :: "item list" where
  \<comment> \<open>\<^verbatim>\<open>\s+\<close>\<close>
  "space_pattern = [plus is_space]"

subsection \<open>\<^verbatim>\<open>BeautifulSoup(text, 'html.parser').get_text(separator=' ')\<close>\<close>

text \<open>
  The HTML parser is a library outside the repository, so the normalizer and all that is
  built on it take the function \<open>html_text\<close>, which stands for this call, as a parameter:
  what is proved of them holds whatever the library does with a text. \<open>get_text\<close> below
  is a model of the call for markup made of start and end tags, for the statements that
  need the text of a concrete markup: a start tag \<^verbatim>\<open><name ...>\<close> or an end tag \<^verbatim>\<open></name>\<close> (a
  \<^verbatim>\<open><\<close>, an optional \<^verbatim>\<open>/\<close>, a letter, and everything up to the next \<^verbatim>\<open>>\<close>) ends the
  current text node and is dropped; every other character is text; the text nodes, in
  document order, are joined by the separator. Comments, declarations, character
  references, the content of script and style elements and a \<^verbatim>\<open>>\<close> inside a quoted attribute
  value are not modelled.
\<close>

definition opens_tag :: "string \<Rightarrow> bool" where
  \<comment> \<open>\<open>s\<close> is what follows a \<^verbatim>\<open><\<close>\<close>
  "opens_tag s =
     ((case s of
         [] \<Rightarrow> False
       | c # cs \<Rightarrow> is_alpha c \<or> (c = CHR ''/'' \<and> (case cs of [] \<Rightarrow> False | d # _ \<Rightarrow> is_alpha d)))
      \<and> CHR ''>'' \<in> set s)"

definition flush :: "string \<Rightarrow> string list" where
  "flush cur = (if cur = [] then [] else [cur])"

fun text_nodes :: "bool \<Rightarrow> string \<Rightarrow> string \<Rightarrow> string list" where
  "text_nodes in_tag cur [] = flush cur"
| "text_nodes in_tag cur (c # cs) =
     (if in_tag then (if c = CHR ''>'' then text_nodes False [] cs else text_nodes True [] cs)
      else if c = CHR ''<'' \<and> opens_tag cs then flush cur @ text_nodes True [] cs
      else text_nodes False (cur @ [c]) cs)"

definition get_text :: "string \<Rightarrow> string \<Rightarrow> string" where
  "get_text separator markup = join separator (text_nodes False [] markup)"

subsection \<open>\<^verbatim>\<open>DataTransformer._clean_text\<close>\<close>

definition clean_string :: "(string \<Rightarrow> string) \<Rightarrow> string \<Rightarrow> string" where
  \<comment> \<open>steps 1 to 5 of \<^verbatim>\<open>_clean_text\<close>, on a non-empty str\<close>
  "clean_string html_text text0 =
     (let text1 = html_text text0;
          text2 = re_sub markup_pattern (\<lambda>_. '' '') text1;
          text3 = re_sub link_pattern link_label text2;
          text4 = re_sub email_pattern (\<lambda>_. ''[EMAIL_REMOVED]'') text3;
          text5 = re_sub ip_pattern (\<lambda>_. ''[IP_REMOVED]'') text4
      in strip (re_sub space_pattern (\<lambda>_. '' '') text5))"

text \<open>
  \<^verbatim>\<open>if not text: return ""\<close> covers None, the empty str and every other falsy value.
  A truthy value that is not a str reaches the BeautifulSoup constructor, which rejects
  it; the model raises TypeError there.
\<close>

fun clean_text :: "(string \<Rightarrow> string) \<Rightarrow> json \<Rightarrow> py_exception + string" where
  "clean_text html_text (JStr s) = Inr (if s = [] then [] else clean_string html_text s)"
| "clean_text html_text v = (if \<not> truthy v then Inr [] else Inl TypeError)"

subsection \<open>\<^verbatim>\<open>DataTransformer._create_derived_tasks\<close>\<close>

text \<open>
  A derived task is the dict with the keys \<^verbatim>\<open>id\<close>, \<^verbatim>\<open>prompt\<close> and \<^verbatim>\<open>completion\<close>. The
  completion is the value read from the record as it is (a str for a record of the
  expected shape).
\<close>

record task =
  task_id :: string
  prompt :: string
  completion :: json

definition name_of :: "json \<Rightarrow> string \<Rightarrow> py_exception + json" where
  \<comment> \<open>\<^verbatim>\<open>fields.get(k, {}).get('name', 'Unknown')\<close>\<close>
  "name_of issue_fields k = bind_exn (py_get issue_fields k (JObj [])) (\<lambda>v. py_get v ''name'' (JStr ''Unknown''))"

definition comment_block :: "(string \<Rightarrow> string) \<Rightarrow> json \<Rightarrow> py_exception + string" where
  \<comment> \<open>the body of the loop over the comments: the text that one comment adds\<close>
  "comment_block html_text comment =
     bind_exn (py_get comment ''author'' (JObj [])) (\<lambda>a.
     bind_exn (py_get a ''displayName'' (JStr ''User'')) (\<lambda>author.
     bind_exn (py_get comment ''body'' (JStr [])) (\<lambda>b.
     bind_exn (clean_text html_text b) (\<lambda>body.
       Inr (if body \<noteq> []
            then ''\<newline>\<newline>--- Comment by '' @ py_str author @ '' ---\<newline>'' @ body
            else [])))))"

fun comments_loop :: "(string \<Rightarrow> string) \<Rightarrow> json list \<Rightarrow> string \<Rightarrow> py_exception + string" where
  "comments_loop html_text [] comments_text = Inr comments_text"
| "comments_loop html_text (comment # rest) comments_text =
     (case comment_block html_text comment of
        Inl e \<Rightarrow> Inl e
      | Inr block \<Rightarrow> comments_loop html_text rest (comments_text @ block))"

definition make_tasks :: "json \<Rightarrow> json \<Rightarrow> json \<Rightarrow> json \<Rightarrow> json \<Rightarrow> string \<Rightarrow> task list" where
  \<comment> \<open>step 4: the four appended tasks\<close>
  "make_tasks key summary status priority issuetype full_context =
     [\<lparr>task_id = py_str key @ ''_summary'',
       prompt = ''Summarize the following Jira issue:\<newline>\<newline>Title: '' @ py_str summary
                @ ''\<newline>\<newline>'' @ full_context,
       completion = summary\<rparr>,
      \<lparr>task_id = py_str key @ ''_qna_status'',
       prompt = ''Given the following issue, what is its current status?\<newline>\<newline>Title: ''
                @ py_str summary @ ''\<newline>\<newline>'' @ full_context,
       completion = status\<rparr>,
      \<lparr>task_id = py_str key @ ''_classify_priority'',
       prompt = ''Classify the priority (e.g., Major, Minor, Blocker) of the following issue:\<newline>\<newline>Title: ''
                @ py_str summary @ ''\<newline>\<newline>'' @ full_context,
       completion = priority\<rparr>,
      \<lparr>task_id = py_str key @ ''_classify_type'',
       prompt = ''Is the following issue a '' @ [CHR 0x22] @ ''Bug'' @ [CHR 0x22] @ '', '' @ [CHR 0x22]
                @ ''New Feature'' @ [CHR 0x22] @ '', or '' @ [CHR 0x22] @ ''Task'' @ [CHR 0x22]
                @ ''?\<newline>\<newline>Title: '' @ py_str summary @ ''\<newline>\<newline>'' @ full_context,
       completion = issuetype\<rparr>]"

text \<open>
  The statements of the \<^verbatim>\<open>try\<close> block after \<^verbatim>\<open>key\<close> is bound, in the order of the
  source; the first exception ends the block.
\<close>

definition derive_body :: "(string \<Rightarrow> string) \<Rightarrow> json \<Rightarrow> json \<Rightarrow> py_exception + task list" where
  "derive_body html_text key raw_issue =
     bind_exn (py_get raw_issue ''fields'' (JObj [])) (\<lambda>issue_fields.
     bind_exn (py_get issue_fields ''summary'' (JStr [])) (\<lambda>summary0.
     let summary = py_or summary0 (JStr []) in
     bind_exn (name_of issue_fields ''status'') (\<lambda>status.
     bind_exn (name_of issue_fields ''priority'') (\<lambda>priority.
     bind_exn (name_of issue_fields ''issuetype'') (\<lambda>issuetype.
     bind_exn (py_get issue_fields ''description'' (JStr [])) (\<lambda>description0.
     bind_exn (clean_text html_text (py_or description0 (JStr []))) (\<lambda>description.
     bind_exn (py_get issue_fields ''comment'' (JObj [])) (\<lambda>comment.
     bind_exn (py_get comment ''comments'' (JArr [])) (\<lambda>comments_list.
     bind_exn (py_iter comments_list) (\<lambda>comments.
     bind_exn (comments_loop html_text comments []) (\<lambda>comments_text.
     let full_context = ''Description:\<newline>'' @ description @ ''\<newline>'' @ comments_text in
     if \<not> truthy summary \<or> \<not> (description \<noteq> [] \<or> comments_text \<noteq> []) then Inr []
     else Inr (make_tasks key summary status priority issuetype full_context))))))))))))"

text \<open>
  \<^verbatim>\<open>_create_derived_tasks\<close>. The first statement of the \<^verbatim>\<open>try\<close> block binds \<^verbatim>\<open>key\<close>.
  The handler \<^verbatim>\<open>except Exception\<close> formats \<^verbatim>\<open>key\<close> into its warning: when the first
  statement itself raised, \<^verbatim>\<open>key\<close> is unbound and the handler raises UnboundLocalError,
  which leaves the function. The result is the exception that leaves the function, or
  the tasks together with the warnings logged.
\<close>

definition create_derived_tasks ::
    "(string \<Rightarrow> string) \<Rightarrow> json \<Rightarrow> py_exception + (task list \<times> string list)" where
  "create_derived_tasks html_text raw_issue =
     (case py_get raw_issue ''key'' JNull of
        Inl e \<Rightarrow> Inl UnboundLocalError
      | Inr key \<Rightarrow>
          (case derive_body html_text key raw_issue of
             Inl e \<Rightarrow> Inr ([], [''Failed to transform issue '' @ py_str key])
           | Inr derived_tasks \<Rightarrow> Inr (derived_tasks, [])))"

subsection \<open>\<^verbatim>\<open>DataTransformer.run_transformation\<close>\<close>

text \<open>
  The raw file is the list of its lines, each given by what \<^verbatim>\<open>json.loads\<close> makes of it
  (\<open>None\<close>: JSONDecodeError). The output file is the list of the tasks written, one per
  line. Reading and writing the files is taken to succeed (no IOError). Log messages are
  kept with their level and their fixed text (the exception text and the file names in
  them are left out, and so is the closing message that names the output file).
\<close>

datatype level = INFO | WARNING | ERROR

record transformation =
  outfile :: "task list"
  seen_task_ids :: "string set"
  count :: nat
  derived_count :: nat
  logged :: "(level \<times> string) list"

definition logging :: "level \<Rightarrow> string \<Rightarrow> transformation \<Rightarrow> transformation" where
  "logging lv msg st = st\<lparr>logged := logged st @ [(lv, msg)]\<rparr>"

fun write_tasks :: "task list \<Rightarrow> transformation \<Rightarrow> transformation" where
  "write_tasks [] st = st"
| "write_tasks (t # ts) st =
     write_tasks ts
       (if task_id t \<notin> seen_task_ids st
        then st\<lparr>outfile := outfile st @ [t],
                seen_task_ids := insert (task_id t) (seen_task_ids st),
                derived_count := derived_count st + 1\<rparr>
        else st)"

definition count_line :: "transformation \<Rightarrow> transformation" where
  \<comment> \<open>\<^verbatim>\<open>count += 1\<close> and the progress message every 1000 lines\<close>
  "count_line st =
     (let st1 = st\<lparr>count := count st + 1\<rparr>
      in if count st1 mod 1000 = 0
         then logging INFO (''Processed '' @ str_nat (count st1) @ '' raw issues (found ''
                            @ str_nat (derived_count st1) @ '' unique tasks)...'') st1
         else st1)"

text \<open>
  The loop over the lines. The inner \<^verbatim>\<open>try\<close> catches JSONDecodeError only and the outer
  one IOError only: any other exception ends the run, with the output written so far.
\<close>

fun transform_lines ::
    "(string \<Rightarrow> string) \<Rightarrow> json option list \<Rightarrow> transformation \<Rightarrow> py_exception option \<times> transformation" where
  "transform_lines html_text [] st = (None, st)"
| "transform_lines html_text (line # rest) st =
     (case line of
        None \<Rightarrow> transform_lines html_text rest (count_line (logging WARNING ''Skipping malformed line in raw file'' st))
      | Some raw_issue \<Rightarrow>
          (case create_derived_tasks html_text raw_issue of
             Inl e \<Rightarrow> (Some e, st)
           | Inr (derived_tasks, warnings) \<Rightarrow>
               transform_lines html_text rest
                 (count_line (write_tasks derived_tasks
                    (st\<lparr>logged := logged st @ map (\<lambda>w. (WARNING, w)) warnings\<rparr>)))))"

definition run_transformation ::
    "(string \<Rightarrow> string) \<Rightarrow> json option list option \<Rightarrow> py_exception option \<times> transformation" where
  "run_transformation html_text raw_input_file =
     (let st0 = logging INFO ''--- Starting LLM transformation pipeline ---''
                  \<lparr>outfile = [], seen_task_ids = {}, count = 0, derived_count = 0, logged = []\<rparr>
      in case raw_input_file of
           None \<Rightarrow> (None, logging ERROR ''Raw data file not found'' st0)
         | Some lines \<Rightarrow>
             (case transform_lines html_text lines st0 of
                (Some e, st) \<Rightarrow> (Some e, st)
              | (None, st) \<Rightarrow>
                  (None,
                   logging INFO (''Created '' @ str_nat (derived_count st) @ '' unique LLM-ready training examples.'')
                     (logging INFO (''Processed '' @ str_nat (count st) @ '' raw issues.'')
                        (logging INFO ''--- Transformation complete. ---'' st)))))"

subsection \<open>Records of the plain shape\<close>

text \<open>
  A raw record has the plain shape when it is an object with a str \<^verbatim>\<open>key\<close> and an object
  \<^verbatim>\<open>fields\<close>, in which \<^verbatim>\<open>summary\<close> and \<^verbatim>\<open>description\<close> are a str, null or absent,
  \<^verbatim>\<open>status\<close>, \<^verbatim>\<open>priority\<close> and \<^verbatim>\<open>issuetype\<close> are an object or absent, and \<^verbatim>\<open>comment\<close> is
  absent or an object whose \<^verbatim>\<open>comments\<close> is absent or a list of objects, each with
  \<^verbatim>\<open>author\<close> an object or absent and \<^verbatim>\<open>body\<close> a str, null or absent. These are the records
  on which no read of the deriver raises. A record in which \<^verbatim>\<open>status\<close>, \<^verbatim>\<open>priority\<close>,
  \<^verbatim>\<open>issuetype\<close>, \<^verbatim>\<open>comment\<close> or the \<^verbatim>\<open>author\<close> of a comment is present as null, as the API
  returns a field that has no value, does not have the plain shape: there a read raises.
\<close>

definition field :: "json \<Rightarrow> string \<Rightarrow> json option" where
  "field v k = (case v of JObj kvs \<Rightarrow> map_of kvs k | _ \<Rightarrow> None)"

definition is_object :: "json \<Rightarrow> bool" where
  "is_object v = (case v of JObj _ \<Rightarrow> True | _ \<Rightarrow> False)"

definition text_or_absent :: "json option \<Rightarrow> bool" where
  "text_or_absent v = (case v of None \<Rightarrow> True | Some JNull \<Rightarrow> True | Some (JStr _) \<Rightarrow> True | _ \<Rightarrow> False)"

definition object_or_absent :: "json option \<Rightarrow> bool" where
  "object_or_absent v = (case v of None \<Rightarrow> True | Some u \<Rightarrow> is_object u)"

definition text_of :: "json option \<Rightarrow> string" where
  \<comment> \<open>the text of a field that is a str, null or absent\<close>
  "text_of v = (case v of Some (JStr s) \<Rightarrow> s | _ \<Rightarrow> [])"

definition plain_comment :: "json \<Rightarrow> bool" where
  "plain_comment c =
     (is_object c \<and> object_or_absent (field c ''author'') \<and> text_or_absent (field c ''body''))"

definition comments_of :: "json \<Rightarrow> json list" where
  \<comment> \<open>the comments of the \<^verbatim>\<open>fields\<close> object \<open>fs\<close>\<close>
  "comments_of fs =
     (case field fs ''comment'' of
        Some c \<Rightarrow> (case field c ''comments'' of Some (JArr xs) \<Rightarrow> xs | _ \<Rightarrow> [])
      | None \<Rightarrow> [])"

definition plain_comments :: "json \<Rightarrow> bool" where
  "plain_comments fs =
     (case field fs ''comment'' of
        None \<Rightarrow> True
      | Some c \<Rightarrow>
          is_object c \<and>
          (case field c ''comments'' of
             None \<Rightarrow> True
           | Some (JArr xs) \<Rightarrow> list_all plain_comment xs
           | _ \<Rightarrow> False))"

definition plain_shape :: "json \<Rightarrow> bool" where
  "plain_shape r =
     (is_object r \<and>
      (case field r ''key'' of Some (JStr k) \<Rightarrow> True | _ \<Rightarrow> False) \<and>
      (case field r ''fields'' of
         Some fs \<Rightarrow>
           is_object fs \<and> text_or_absent (field fs ''summary'') \<and> text_or_absent (field fs ''description'')
           \<and> object_or_absent (field fs ''status'') \<and> object_or_absent (field fs ''priority'')
           \<and> object_or_absent (field fs ''issuetype'') \<and> plain_comments fs
       | None \<Rightarrow> False))"

text \<open>The parts of a record that the deriver's decision reads.\<close>

definition record_id :: "json \<Rightarrow> string" where
  "record_id r = text_of (field r ''key'')"

definition record_fields :: "json \<Rightarrow> json" where
  "record_fields r = (case field r ''fields'' of Some fs \<Rightarrow> fs | None \<Rightarrow> JObj [])"

definition summary_of :: "json \<Rightarrow> string" where
  "summary_of r = text_of (field (record_fields r) ''summary'')"

definition normalize_text :: "(string \<Rightarrow> string) \<Rightarrow> string \<Rightarrow> string" where
  \<comment> \<open>\<^verbatim>\<open>_clean_text\<close> on a str\<close>
  "normalize_text html_text s = (if s = [] then [] else clean_string html_text s)"

definition normalized_description :: "(string \<Rightarrow> string) \<Rightarrow> json \<Rightarrow> string" where
  "normalized_description html_text r =
     normalize_text html_text (text_of (field (record_fields r) ''description''))"

definition comment_texts :: "(string \<Rightarrow> string) \<Rightarrow> json \<Rightarrow> string list" where
  \<comment> \<open>the normalized bodies of the comments\<close>
  "comment_texts html_text r =
     map (\<lambda>c. normalize_text html_text (text_of (field c ''body''))) (comments_of (record_fields r))"

definition uninformative :: "(string \<Rightarrow> string) \<Rightarrow> json \<Rightarrow> bool" where
  \<comment> \<open>empty summary, or empty normalized description and no comment with text\<close>
  "uninformative html_text r =
     (summary_of r = [] \<or>
      (normalized_description html_text r = [] \<and> list_all (\<lambda>b. b = []) (comment_texts html_text r)))"

text \<open>The four identifiers of the tasks of the record with the identifier \<open>k\<close>.\<close>

definition task_ids :: "string \<Rightarrow> string list" where
  "task_ids k = [k @ ''_summary'', k @ ''_qna_status'', k @ ''_classify_priority'', k @ ''_classify_type'']"

subsection \<open>Sample records\<close>

text \<open>A record of the plain shape, with one comment.\<close>

definition sample_issue :: json where
  "sample_issue =
     JObj [(''key'', JStr ''SPARK-1''),
           (''fields'', JObj [(''summary'', JStr ''Fix it''),
                              (''description'', JStr ''<p>broken</p>''),
                              (''status'', JObj [(''name'', JStr ''Open'')]),
                              (''comment'', JObj [(''comments'',
                                 JArr [JObj [(''author'', JObj [(''displayName'', JStr ''Al'')]),
                                             (''body'', JStr ''me too'')]])])])]"

text \<open>
  An issue with a summary and a description whose priority is not set: the API returns
  the field as null. \<open>unset_priority_issue\<close> is the same issue without the field.
\<close>

definition null_priority_issue :: json where
  "null_priority_issue =
     JObj [(''key'', JStr ''SPARK-2''),
           (''fields'', JObj [(''summary'', JStr ''Slow job''),
                              (''description'', JStr ''The job is slow.''),
                              (''status'', JObj [(''name'', JStr ''Open'')]),
                              (''priority'', JNull),
                              (''issuetype'', JObj [(''name'', JStr ''Bug'')])])]"

definition unset_priority_issue :: json where
  "unset_priority_issue =
     JObj [(''key'', JStr ''SPARK-2''),
           (''fields'', JObj [(''summary'', JStr ''Slow job''),
                              (''description'', JStr ''The job is slow.''),
                              (''status'', JObj [(''name'', JStr ''Open'')]),
                              (''issuetype'', JObj [(''name'', JStr ''Bug'')])])]"

subsection \<open>Notions used in the statements about the pipeline\<close>

text \<open>
  All the tasks the deriver returns for the records of a raw store, in the order of the
  store, duplicates included: a line that does not decode adds nothing, and the store is
  read up to the first record on which the deriver raises.
\<close>

fun derived_tasks :: "(string \<Rightarrow> string) \<Rightarrow> json option list \<Rightarrow> task list" where
  "derived_tasks html_text [] = []"
| "derived_tasks html_text (None # rest) = derived_tasks html_text rest"
| "derived_tasks html_text (Some r # rest) =
     (case create_derived_tasks html_text r of
        Inl e \<Rightarrow> []
      | Inr (ts, ws) \<Rightarrow> ts @ derived_tasks html_text rest)"

text \<open>The elements of a list at their first occurrence, in the order of the list.\<close>

definition first_occurrences :: "'a list \<Rightarrow> 'a list" where
  "first_occurrences xs = rev (remdups (rev xs))"

section \<open>The scraper (src/scraper.py)\<close>

definition MAX_RETRIES :: nat where
  "MAX_RETRIES = 5"

subsection \<open>The checkpoint and the world around the scraper\<close>

text \<open>
  The value of a project in the checkpoint is an integer offset or the str
  \<^verbatim>\<open>"COMPLETED"\<close>. The checkpoint is a dict, whose \<^verbatim>\<open>d[k] = v\<close> replaces the value of a
  key in place or adds the key at the end (\<open>AList.update\<close>); \<^verbatim>\<open>d.get(k, 0)\<close> is
  \<open>get_marker\<close>.
\<close>

datatype marker = Offset int | COMPLETED

type_synonym checkpoint = "(string \<times> marker) list"

definition get_marker :: "checkpoint \<Rightarrow> string \<Rightarrow> marker" where
  "get_marker cp project = (case map_of cp project of None \<Rightarrow> Offset 0 | Some m \<Rightarrow> m)"

text \<open>
  The decoded body of a successful response: \<^verbatim>\<open>data.get('total', 0)\<close> and
  \<^verbatim>\<open>data.get('issues', [])\<close> read its two keys, each of which may be absent. A response is
  its status code and body, or the request raises RequestException (timeout, connection
  error). The body of a successful response is taken to decode.
\<close>

record page =
  total :: "int option"
  issues :: "json list option"

datatype http_outcome = Response int page | RequestException

text \<open>
  What the scraper cannot decide: \<open>http_get env n project start_at\<close> is the outcome of the
  \<open>n\<close>-th HTTP request of the run, and \<open>write_fails env n\<close> says whether the \<open>n\<close>-th append
  to the output file raises IOError (\<open>Some k\<close>: after \<open>k\<close> lines were written).
\<close>

record environment =
  http_get :: "nat \<Rightarrow> string \<Rightarrow> int \<Rightarrow> http_outcome"
  write_fails :: "nat \<Rightarrow> nat option"

text \<open>
  The effects a run has on the world, in their order: an HTTP request for a project at an
  offset, an append to the output file (completed or failed), a checkpoint snapshot
  written to the checkpoint file.
\<close>

datatype event = Requested string int | Appended "json list" | AppendFailed | Saved checkpoint

text \<open>
  The scraper object and the files it owns. \<open>checkpoint_file\<close> is the snapshot the
  checkpoint file holds, \<open>output_file\<close> the lines of the raw record store, \<open>slept_ms\<close>
  the time spent in \<^verbatim>\<open>time.sleep\<close>, in milliseconds. Log messages are not modelled.
\<close>

record scraper =
  projects_to_fetch :: "string list"
  checkpoint_data :: checkpoint
  checkpoint_file :: checkpoint
  output_file :: "json list"
  requests :: nat
  appends :: nat
  slept_ms :: nat
  trace :: "event list"

definition sleep :: "nat \<Rightarrow> scraper \<Rightarrow> scraper" where
  "sleep ms st = st\<lparr>slept_ms := slept_ms st + ms\<rparr>"

subsection \<open>\<^verbatim>\<open>JiraScraper._save_checkpoint\<close>\<close>

text \<open>
  A completed save: the file holds the whole in-memory mapping. Writing the checkpoint
  file is taken to succeed (the source does not catch its IOError).
\<close>

definition save_checkpoint :: "scraper \<Rightarrow> scraper" where
  "save_checkpoint st =
     st\<lparr>checkpoint_file := checkpoint_data st, trace := trace st @ [Saved (checkpoint_data st)]\<rparr>"

text \<open>
  \<^verbatim>\<open>checkpoint_data[project] = value\<close> followed by \<^verbatim>\<open>_save_checkpoint()\<close>, as it stands at
  three places of \<^verbatim>\<open>run_pipeline\<close>.
\<close>

definition set_and_save :: "string \<Rightarrow> marker \<Rightarrow> scraper \<Rightarrow> scraper" where
  "set_and_save project m st =
     save_checkpoint (st\<lparr>checkpoint_data := AList.update project m (checkpoint_data st)\<rparr>)"

text \<open>
  The text that \<^verbatim>\<open>json.dump(checkpoint_data, f, indent=2)\<close> writes: one line per key,
  indented by two spaces, a str between double quotes with the escapes of the JSON
  encoder (\<^verbatim>\<open>ensure_ascii\<close>).
\<close>

definition json_escape_char :: "char \<Rightarrow> string" where
  "json_escape_char c =
     (let n = (of_char c :: nat) in
      if c = CHR 0x22 then [CHR 0x5C, CHR 0x22]
      else if c = CHR 0x5C then [CHR 0x5C, CHR 0x5C]
      else if n = 8 then [CHR 0x5C, CHR ''b'']
      else if n = 9 then [CHR 0x5C, CHR ''t'']
      else if n = 10 then [CHR 0x5C, CHR ''n'']
      else if n = 12 then [CHR 0x5C, CHR ''f'']
      else if n = 13 then [CHR 0x5C, CHR ''r'']
      else if n < 32 \<or> 126 < n then [CHR 0x5C, CHR ''u'', CHR ''0'', CHR ''0'', hex_digit (n div 16), hex_digit n]
      else [c])"

definition json_string :: "string \<Rightarrow> string" where
  "json_string s = [CHR 0x22] @ concat (map json_escape_char s) @ [CHR 0x22]"

definition json_marker :: "marker \<Rightarrow> string" where
  "json_marker m = (case m of Offset i \<Rightarrow> str_int i | COMPLETED \<Rightarrow> json_string ''COMPLETED'')"

definition json_dump :: "checkpoint \<Rightarrow> string" where
  "json_dump cp =
     (if cp = [] then ''{}''
      else ''{\<newline>  '' @ join '',\<newline>  '' (map (\<lambda>kv. json_string (fst kv) @ '': '' @ json_marker (snd kv)) cp)
           @ ''\<newline>}'')"

text \<open>
  \<^verbatim>\<open>_save_checkpoint\<close> on the file itself. \<^verbatim>\<open>open(checkpoint_file, 'w')\<close> truncates the
  file, then \<^verbatim>\<open>json.dump\<close> writes the new text into it, and leaving the \<^verbatim>\<open>with\<close> block
  closes it. \<open>save_checkpoint_disk_states old cp\<close> lists the contents of the file that a
  crash of the process can leave behind, in the order in which they arise: the old text
  (before \<^verbatim>\<open>open\<close>), the empty file (after \<^verbatim>\<open>open\<close>), the growing part of the new text
  that has reached the file, and at last the whole new text. The source writes no
  temporary file and renames nothing.
\<close>

definition save_checkpoint_disk_states :: "string \<Rightarrow> checkpoint \<Rightarrow> string list" where
  "save_checkpoint_disk_states old cp =
     old # map (\<lambda>n. take n (json_dump cp)) [0..<Suc (length (json_dump cp))]"

subsection \<open>\<^verbatim>\<open>JiraScraper._save_issues_to_jsonl\<close>\<close>

definition save_issues_to_jsonl :: "environment \<Rightarrow> json list \<Rightarrow> scraper \<Rightarrow> bool \<times> scraper" where
  "save_issues_to_jsonl env issues_list st =
     (case write_fails env (appends st) of
        None \<Rightarrow>
          (True, st\<lparr>output_file := output_file st @ issues_list, appends := appends st + 1,
                    trace := trace st @ [Appended issues_list]\<rparr>)
      | Some k \<Rightarrow>
          (False, st\<lparr>output_file := output_file st @ take k issues_list, appends := appends st + 1,
                     trace := trace st @ [AppendFailed]\<rparr>))"

subsection \<open>\<^verbatim>\<open>JiraScraper._fetch_jira_page\<close>\<close>

text \<open>
  The loop \<^verbatim>\<open>for attempt in range(MAX_RETRIES)\<close>, by the number of attempts left. The result
  is the decoded page, or \<open>None\<close>.
\<close>

fun fetch_attempts :: "environment \<Rightarrow> string \<Rightarrow> int \<Rightarrow> nat \<Rightarrow> scraper \<Rightarrow> page option \<times> scraper" where
  "fetch_attempts env project_key start_at 0 st = (None, st)"
| "fetch_attempts env project_key start_at (Suc attempts_left) st =
     (let st1 = st\<lparr>requests := requests st + 1, trace := trace st @ [Requested project_key start_at]\<rparr>
      in case http_get env (requests st) project_key start_at of
           RequestException \<Rightarrow> fetch_attempts env project_key start_at attempts_left (sleep 15000 st1)
         | Response status_code body \<Rightarrow>
             if status_code = 429 then fetch_attempts env project_key start_at attempts_left (sleep 60000 st1)
             else if status_code \<ge> 500 then fetch_attempts env project_key start_at attempts_left (sleep 15000 st1)
             else if \<not> status_code < 400 then (None, st1)
             else (Some body, st1))"

definition fetch_jira_page :: "environment \<Rightarrow> string \<Rightarrow> int \<Rightarrow> scraper \<Rightarrow> page option \<times> scraper" where
  "fetch_jira_page env project_key start_at st = fetch_attempts env project_key start_at MAX_RETRIES st"

subsection \<open>\<^verbatim>\<open>JiraScraper.run_pipeline\<close>\<close>

text \<open>
  One pass through the body of \<^verbatim>\<open>while True\<close>, for a project with the local variables
  \<^verbatim>\<open>current_index\<close> and \<^verbatim>\<open>total_issues\<close>. The body ends with \<^verbatim>\<open>break\<close> (\<open>Exit Break\<close>: the
  next project follows), with \<^verbatim>\<open>return\<close> (\<open>Exit Return\<close>: the run is over) or at its end
  (\<open>Next\<close>, with the new values of the local variables: the loop goes round again).
\<close>

datatype outcome = Break | Return

datatype step = Exit outcome scraper | Next int int scraper

definition loop_body :: "environment \<Rightarrow> string \<Rightarrow> int \<Rightarrow> int \<Rightarrow> scraper \<Rightarrow> step" where
  "loop_body env project current_index total_issues st =
     (case fetch_jira_page env project current_index st of
        (None, st1) \<Rightarrow> Exit Break st1
      | (Some data, st1) \<Rightarrow>
          let total1 = (if total_issues = - 1 then (case total data of None \<Rightarrow> 0 | Some t \<Rightarrow> t)
                        else total_issues)
          in if total_issues = - 1 \<and> total1 = 0 then Exit Break st1
             else
               let issues_on_page = (case issues data of None \<Rightarrow> [] | Some xs \<Rightarrow> xs)
               in if issues_on_page = [] then Exit Break (set_and_save project COMPLETED st1)
                  else
                    case save_issues_to_jsonl env issues_on_page st1 of
                      (False, st2) \<Rightarrow> Exit Return st2
                    | (True, st2) \<Rightarrow>
                        let current_index1 = current_index + int (length issues_on_page);
                            st3 = set_and_save project (Offset current_index1) st2
                        in if current_index1 \<ge> total1
                           then Exit Break (set_and_save project COMPLETED st3)
                           else Next current_index1 total1 (sleep 300 st3))"

lemma loop_body_Next:
  assumes "loop_body env project current_index total_issues st = Next i' t' st'"
  shows "current_index < i' \<and> i' < t' \<and> (total_issues \<noteq> - 1 \<longrightarrow> t' = total_issues)"
  using assms
  by (auto simp: loop_body_def Let_def split: prod.splits option.splits if_splits bool.splits)

text \<open>
  The loop \<^verbatim>\<open>while True\<close>. It ends: \<^verbatim>\<open>current_index\<close> grows with every pass, and a pass
  is only followed by another while \<^verbatim>\<open>current_index < total_issues\<close>, where
  \<^verbatim>\<open>total_issues\<close> stays as it is once it differs from \<^verbatim>\<open>-1\<close>.
\<close>

function fetch_loop :: "environment \<Rightarrow> string \<Rightarrow> int \<Rightarrow> int \<Rightarrow> scraper \<Rightarrow> outcome \<times> scraper" where
  "fetch_loop env project current_index total_issues st =
     (case loop_body env project current_index total_issues st of
        Exit how st' \<Rightarrow> (how, st')
      | Next current_index1 total1 st' \<Rightarrow> fetch_loop env project current_index1 total1 st')"
  by pat_completeness auto
termination
proof (relation "measures [\<lambda>(env, project, i, t, st). if t = - 1 then 1 else 0,
                            \<lambda>(env, project, i, t, st). nat (t - i)]")
  show "wf (measures [\<lambda>(env, project, i, t, st). if t = - 1 then 1 else 0,
                       \<lambda>(env, project, i, t, st). nat (t - i)])"
    by simp
next
  fix env :: environment and project :: string and current_index total_issues :: int
    and st st' :: scraper and i' t' :: int
  assume "loop_body env project current_index total_issues st = Next i' t' st'"
  from loop_body_Next [OF this]
  show "((env, project, i', t', st'), (env, project, current_index, total_issues, st))
          \<in> measures [\<lambda>(env, project, i, t, st). if t = - 1 then 1 else 0,
                       \<lambda>(env, project, i, t, st). nat (t - i)]"
    by auto
qed

text \<open>
  The loop over the projects. A project whose value is \<^verbatim>\<open>"COMPLETED"\<close> is skipped; the
  \<^verbatim>\<open>return\<close> after a failed append ends the run.
\<close>

fun run_projects :: "environment \<Rightarrow> string list \<Rightarrow> scraper \<Rightarrow> outcome \<times> scraper" where
  "run_projects env [] st = (Break, st)"
| "run_projects env (project # rest) st =
     (case get_marker (checkpoint_data st) project of
        COMPLETED \<Rightarrow> run_projects env rest st
      | Offset current_index \<Rightarrow>
          (case fetch_loop env project current_index (- 1) st of
             (Return, st') \<Rightarrow> (Return, st')
           | (Break, st') \<Rightarrow> run_projects env rest st'))"

definition run_pipeline :: "environment \<Rightarrow> scraper \<Rightarrow> outcome \<times> scraper" where
  "run_pipeline env st = run_projects env (projects_to_fetch st) st"

subsection \<open>Reading a trace\<close>

text \<open>The snapshot in the checkpoint file after the events \<open>evs\<close>, when it held \<open>cp\<close> before.\<close>

fun persisted_after :: "checkpoint \<Rightarrow> event list \<Rightarrow> checkpoint" where
  "persisted_after cp [] = cp"
| "persisted_after cp (Saved cp' # evs) = persisted_after cp' evs"
| "persisted_after cp (_ # evs) = persisted_after cp evs"

text \<open>
  The order of two values of a project in the checkpoint: an offset may grow or become
  \<^verbatim>\<open>"COMPLETED"\<close>; \<^verbatim>\<open>"COMPLETED"\<close> stays.
\<close>

fun marker_le :: "marker \<Rightarrow> marker \<Rightarrow> bool" where
  "marker_le (Offset a) (Offset b) = (a \<le> b)"
| "marker_le (Offset a) COMPLETED = True"
| "marker_le COMPLETED (Offset b) = False"
| "marker_le COMPLETED COMPLETED = True"

text \<open>
  \<open>monotone_from project m evs\<close>: along the events \<open>evs\<close>, starting from the value \<open>m\<close> of
  \<open>project\<close>, every snapshot written holds a value of \<open>project\<close> that is not below the
  one before it, and no request is made for \<open>project\<close> while its value is
  \<^verbatim>\<open>"COMPLETED"\<close>.
\<close>

fun monotone_from :: "string \<Rightarrow> marker \<Rightarrow> event list \<Rightarrow> bool" where
  "monotone_from project m [] = True"
| "monotone_from project m (Saved cp # evs) =
     (marker_le m (get_marker cp project) \<and> monotone_from project (get_marker cp project) evs)"
| "monotone_from project m (Requested p i # evs) =
     ((if p = project then m \<noteq> COMPLETED else True) \<and> monotone_from project m evs)"
| "monotone_from project m (_ # evs) = monotone_from project m evs"

text \<open>The snapshots written among the events.\<close>

fun snapshots :: "event list \<Rightarrow> checkpoint list" where
  "snapshots [] = []"
| "snapshots (Saved cp # evs) = cp # snapshots evs"
| "snapshots (_ # evs) = snapshots evs"

subsection \<open>Sample worlds for the concrete instances\<close>

definition fresh_scraper :: "string list \<Rightarrow> scraper" where
  \<comment> \<open>a scraper for the given projects, all at offset 0, before its first effect\<close>
  "fresh_scraper projects =
     \<lparr>projects_to_fetch = projects, checkpoint_data = map (\<lambda>p. (p, Offset 0)) projects,
      checkpoint_file = map (\<lambda>p. (p, Offset 0)) projects, output_file = [], requests = 0, appends = 0,
      slept_ms = 0, trace = []\<rparr>"

definition empty_page :: page where
  "empty_page = \<lparr>total = Some 0, issues = Some []\<rparr>"

definition server_down :: environment where
  \<comment> \<open>every request is answered with status 500\<close>
  "server_down = \<lparr>http_get = (\<lambda>n project start_at. Response 500 empty_page), write_fails = (\<lambda>n. None)\<rparr>"

definition empty_server :: environment where
  \<comment> \<open>every project has no issue: status 200, total 0\<close>
  "empty_server = \<lparr>http_get = (\<lambda>n project start_at. Response 200 empty_page), write_fails = (\<lambda>n. None)\<rparr>"

definition three_issues :: "int \<Rightarrow> page" where
  \<comment> \<open>a project of three issues, served two at a time\<close>
  "three_issues start_at =
     \<lparr>total = Some 3,
      issues = Some (if start_at = 0 then [JStr ''A-1'', JStr ''A-2'']
                     else if start_at = 2 then [JStr ''A-3''] else [])\<rparr>"

definition small_server :: environment where
  "small_server =
     \<lparr>http_get = (\<lambda>n project start_at. Response 200 (three_issues start_at)), write_fails = (\<lambda>n. None)\<rparr>"

definition full_disk :: environment where
  \<comment> \<open>the server of \<open>small_server\<close>; the second append to the output file fails\<close>
  "full_disk =
     \<lparr>http_get = (\<lambda>n project start_at. Response 200 (three_issues start_at)),
      write_fails = (\<lambda>n. if n = 1 then Some 0 else None)\<rparr>"

subsection \<open>Notions used in the statements about the scraper\<close>

text \<open>
  A transient failure of a request (HTTP 429, HTTP 5xx, a network error) and the time
  the scraper sleeps after it, in milliseconds.
\<close>

definition transient :: "http_outcome \<Rightarrow> bool" where
  "transient r =
     (case r of RequestException \<Rightarrow> True | Response status_code body \<Rightarrow> status_code = 429 \<or> status_code \<ge> 500)"

definition backoff_ms :: "http_outcome \<Rightarrow> nat" where
  "backoff_ms r =
     (case r of
        RequestException \<Rightarrow> 15000
      | Response status_code body \<Rightarrow> if status_code = 429 then 60000 else 15000)"

text \<open>
  \<open>extends st evs st'\<close>: the state \<open>st'\<close> comes from \<open>st\<close> by the events \<open>evs\<close>, and both
  the checkpoint file and the in-memory mapping are what the last snapshot written among
  \<open>evs\<close> made them (the mapping is never changed without being saved at once).
\<close>

definition extends :: "scraper \<Rightarrow> event list \<Rightarrow> scraper \<Rightarrow> bool" where
  "extends st evs st' =
     (trace st' = trace st @ evs \<and>
      checkpoint_data st' = persisted_after (checkpoint_data st) evs \<and>
      checkpoint_file st' = persisted_after (checkpoint_file st) evs \<and>
      projects_to_fetch st' = projects_to_fetch st)"

text \<open>
  How the events of a run end: after \<^verbatim>\<open>break\<close> no append has failed; after \<^verbatim>\<open>return\<close> the
  failed append is the last event and the only failed one.
\<close>

definition clean_exit :: "outcome \<Rightarrow> event list \<Rightarrow> bool" where
  "clean_exit how evs =
     (case how of
        Break \<Rightarrow> AppendFailed \<notin> set evs
      | Return \<Rightarrow> evs \<noteq> [] \<and> last evs = AppendFailed \<and> AppendFailed \<notin> set (butlast evs))"

section \<open>Verification of the transformer\<close>

subsection \<open>The text normalizer\<close>

text \<open>
  Claim C8. The normalizer maps \<^verbatim>\<open><b>Hi</b> {code}x=1{code} [Go|http://x]\<close> to
  \<^verbatim>\<open>Hi x=1 Go\<close> and \<^verbatim>\<open>contact me at a@b.com from 10.0.0.1\<close> to
  \<^verbatim>\<open>contact me at [EMAIL_REMOVED] from [IP_REMOVED]\<close>; on the empty str and on a missing
  value (None) it returns the empty str and raises nothing.
\<close>

theorem normalizer_examples:
  "clean_text (get_text '' '') (JStr ''<b>Hi</b> {code}x=1{code} [Go|http://x]'') = Inr ''Hi x=1 Go'' \<and>
   clean_text (get_text '' '') (JStr ''contact me at a@b.com from 10.0.0.1'')
     = Inr ''contact me at [EMAIL_REMOVED] from [IP_REMOVED]'' \<and>
   clean_text (get_text '' '') (JStr []) = Inr [] \<and>
   clean_text (get_text '' '') JNull = Inr []"
  by code_simp

subsection \<open>The task deriver on records of the plain shape\<close>

lemma field_obj: "field (JObj kvs) k = map_of kvs k"
  by (simp add: field_def)

lemma is_objectE: "is_object v \<Longrightarrow> \<exists>kvs. v = JObj kvs"
  by (cases v) (simp_all add: is_object_def)

lemma py_get_field: "is_object v \<Longrightarrow> py_get v k d = Inr (case field v k of None \<Rightarrow> d | Some u \<Rightarrow> u)"
  by (auto dest!: is_objectE simp: field_obj)

lemma clean_text_field:
  "text_or_absent v \<Longrightarrow>
   clean_text html_text (case v of None \<Rightarrow> JStr [] | Some u \<Rightarrow> u) = Inr (normalize_text html_text (text_of v))"
  by (auto simp: text_or_absent_def text_of_def normalize_text_def split: option.splits json.splits)

lemma clean_text_field_or:
  "text_or_absent v \<Longrightarrow>
   clean_text html_text (py_or (case v of None \<Rightarrow> JStr [] | Some u \<Rightarrow> u) (JStr []))
     = Inr (normalize_text html_text (text_of v))"
  by (auto simp: text_or_absent_def text_of_def normalize_text_def py_or_def split: option.splits json.splits)

lemma summary_field_or:
  "text_or_absent v \<Longrightarrow> py_or (case v of None \<Rightarrow> JStr [] | Some u \<Rightarrow> u) (JStr []) = JStr (text_of v)"
  by (auto simp: text_or_absent_def text_of_def py_or_def split: option.splits json.splits)

lemma name_of_ok: "is_object fs \<Longrightarrow> object_or_absent (field fs k) \<Longrightarrow> \<exists>v. name_of fs k = Inr v"
  by (auto simp: name_of_def bind_exn_def py_get_field object_or_absent_def is_object_def split: option.splits)

lemma comment_block_ok:
  assumes "plain_comment c"
  shows "\<exists>t. comment_block html_text c = Inr t \<and>
             (t = [] \<longleftrightarrow> normalize_text html_text (text_of (field c ''body'')) = [])"
proof -
  from assms have obj: "is_object c" and au: "object_or_absent (field c ''author'')"
    and bo: "text_or_absent (field c ''body'')"
    by (simp_all add: plain_comment_def)
  have a: "is_object (case field c ''author'' of None \<Rightarrow> JObj [] | Some u \<Rightarrow> u)"
    using au by (auto simp: object_or_absent_def is_object_def split: option.splits)
  show ?thesis
    by (simp add: comment_block_def bind_exn_def py_get_field [OF obj] py_get_field [OF a]
        clean_text_field [OF bo])
qed

lemma comments_loop_ok:
  "list_all plain_comment xs \<Longrightarrow>
   \<exists>t. comments_loop html_text xs acc = Inr t \<and>
       (t = [] \<longleftrightarrow> acc = [] \<and>
          list_all (\<lambda>b. b = []) (map (\<lambda>c. normalize_text html_text (text_of (field c ''body''))) xs))"
proof (induction xs arbitrary: acc)
  case Nil
  then show ?case by simp
next
  case (Cons c cs)
  then obtain t where t: "comment_block html_text c = Inr t"
    "t = [] \<longleftrightarrow> normalize_text html_text (text_of (field c ''body'')) = []"
    using comment_block_ok [of c html_text] by auto
  from Cons.prems have "list_all plain_comment cs" by simp
  from Cons.IH [OF this, of "acc @ t"] t show ?case by auto
qed

lemma derive_body_ok:
  assumes wf: "plain_shape r"
  shows "\<exists>ts. derive_body html_text (JStr (record_id r)) r = Inr ts \<and>
           map task_id ts = (if uninformative html_text r then [] else task_ids (record_id r))"
proof -
  from wf have obj: "is_object r" by (simp add: plain_shape_def)
  from wf obtain fs where fs: "field r ''fields'' = Some fs" "is_object fs"
    and su: "text_or_absent (field fs ''summary'')" and de: "text_or_absent (field fs ''description'')"
    and st: "object_or_absent (field fs ''status'')" and pr: "object_or_absent (field fs ''priority'')"
    and ty: "object_or_absent (field fs ''issuetype'')" and co: "plain_comments fs"
    by (auto simp: plain_shape_def split: option.splits)
  have rf: "record_fields r = fs" by (simp add: record_fields_def fs)
  obtain status where status: "name_of fs ''status'' = Inr status"
    using name_of_ok [OF fs(2) st] by blast
  obtain priority where priority: "name_of fs ''priority'' = Inr priority"
    using name_of_ok [OF fs(2) pr] by blast
  obtain issuetype where issuetype: "name_of fs ''issuetype'' = Inr issuetype"
    using name_of_ok [OF fs(2) ty] by blast
  define cm where "cm = (case field fs ''comment'' of None \<Rightarrow> JObj [] | Some u \<Rightarrow> u)"
  have cm_obj: "is_object cm"
    using co by (auto simp: cm_def plain_comments_def is_object_def split: option.splits)
  define cl where "cl = (case field cm ''comments'' of None \<Rightarrow> JArr [] | Some u \<Rightarrow> u)"
  have cl: "cl = JArr (comments_of fs)" and cwf: "list_all plain_comment (comments_of fs)"
    using co
    by (auto simp: cl_def cm_def comments_of_def plain_comments_def field_obj
        split: option.splits json.splits)
  obtain ct where ct: "comments_loop html_text (comments_of fs) [] = Inr ct"
    and ct_empty: "ct = [] \<longleftrightarrow> list_all (\<lambda>b. b = []) (comment_texts html_text r)"
    using comments_loop_ok [OF cwf, of html_text "[]"] by (auto simp: comment_texts_def rf)
  have body: "derive_body html_text (JStr (record_id r)) r =
      (if text_of (field fs ''summary'') = [] \<or>
          \<not> (normalize_text html_text (text_of (field fs ''description'')) \<noteq> [] \<or> ct \<noteq> [])
       then Inr []
       else Inr (make_tasks (JStr (record_id r)) (JStr (text_of (field fs ''summary''))) status priority issuetype
                   (''Description:\<newline>'' @ normalize_text html_text (text_of (field fs ''description''))
                    @ ''\<newline>'' @ ct)))"
    unfolding derive_body_def
    by (simp add: bind_exn_def py_get_field [OF obj] py_get_field [OF fs(2)] fs(1) status priority
        issuetype summary_field_or [OF su] clean_text_field_or [OF de] py_get_field [OF cm_obj]
        cm_def [symmetric] cl_def [symmetric] cl ct Let_def)
  have un: "uninformative html_text r \<longleftrightarrow>
      (text_of (field fs ''summary'') = [] \<or>
       \<not> (normalize_text html_text (text_of (field fs ''description'')) \<noteq> [] \<or> ct \<noteq> []))"
    by (auto simp: uninformative_def summary_of_def normalized_description_def rf ct_empty)
  show ?thesis
    unfolding body un [symmetric] by (simp add: make_tasks_def task_ids_def)
qed

text \<open>
  On a record of the plain shape the deriver raises nothing and logs no warning: it
  returns no task when the summary is empty, or when the normalized description is empty
  and no comment has text, and otherwise the four tasks of the record's identifier.
\<close>

lemma deriver_tasks_shape:
  assumes "plain_shape r"
  shows "\<exists>ts. create_derived_tasks html_text r = Inr (ts, []) \<and>
           map task_id ts = (if uninformative html_text r then [] else task_ids (record_id r))"
proof -
  from assms have obj: "is_object r" by (simp add: plain_shape_def)
  from assms obtain k where k: "field r ''key'' = Some (JStr k)"
    by (auto simp: plain_shape_def split: option.splits json.splits)
  then have rid: "record_id r = k" by (simp add: record_id_def text_of_def)
  from derive_body_ok [OF assms, of html_text] obtain ts where
    "derive_body html_text (JStr k) r = Inr ts" and
    "map task_id ts = (if uninformative html_text r then [] else task_ids (record_id r))"
    unfolding rid by blast
  then show ?thesis
    by (simp add: create_derived_tasks_def py_get_field [OF obj] k)
qed

subsection \<open>A metadata field that is null\<close>

text \<open>
  Claim C7. The claim is that every record with a summary and a description or comment
  text yields the four tasks of its identifier. \<open>null_priority_issue\<close> is such a record,
  with its priority not set: \<^verbatim>\<open>fields.get('priority', {})\<close> then returns None, not the
  default, \<^verbatim>\<open>.get('name', 'Unknown')\<close> raises AttributeError on it, and the handler returns
  no task and logs a warning, whatever the HTML library does. The same record without the
  \<^verbatim>\<open>priority\<close> key yields the four tasks, with the priority \<^verbatim>\<open>Unknown\<close>.
\<close>

theorem deriver_null_priority:
  "create_derived_tasks html_text null_priority_issue
     = Inr ([], [''Failed to transform issue SPARK-2'']) \<and>
   \<not> uninformative (get_text '' '') null_priority_issue \<and>
   create_derived_tasks (get_text '' '') unset_priority_issue
     = Inr (make_tasks (JStr ''SPARK-2'') (JStr ''Slow job'') (JStr ''Open'') (JStr ''Unknown'') (JStr ''Bug'')
              ''Description:\<newline>The job is slow.\<newline>'', [])"
proof -
  have 1: "create_derived_tasks html_text null_priority_issue
     = Inr ([], [''Failed to transform issue SPARK-2''])"
    by (simp add: create_derived_tasks_def derive_body_def name_of_def bind_exn_def
        null_priority_issue_def py_or_def)
  have 2: "\<not> uninformative (get_text '' '') null_priority_issue"
    by code_simp
  have 3: "create_derived_tasks (get_text '' '') unset_priority_issue
     = Inr (make_tasks (JStr ''SPARK-2'') (JStr ''Slow job'') (JStr ''Open'') (JStr ''Unknown'') (JStr ''Bug'')
              ''Description:\<newline>The job is slow.\<newline>'', [])"
    by code_simp
  from 1 2 3 show ?thesis by blast
qed

subsection \<open>Records that are not objects\<close>

lemma create_derived_tasks_object:
  "is_object r \<Longrightarrow> \<exists>ts ws. create_derived_tasks html_text r = Inr (ts, ws)"
  by (auto simp: create_derived_tasks_def py_get_field split: sum.splits)

lemma create_derived_tasks_not_object:
  "\<not> is_object r \<Longrightarrow> create_derived_tasks html_text r = Inl UnboundLocalError"
  by (cases r) (simp_all add: create_derived_tasks_def is_object_def)

text \<open>
  Claim C3. The claim is that the deriver never lets an exception reach the pipeline.
  On a record that is not an object (here the JSON number 5) the first statement of the
  \<^verbatim>\<open>try\<close> block raises before \<^verbatim>\<open>key\<close> is bound, the handler's own warning then raises
  UnboundLocalError, and \<^verbatim>\<open>run_transformation\<close>, which catches JSONDecodeError and
  IOError only, ends with that exception: the records after it are not processed.
\<close>

theorem deriver_unbound_key:
  "create_derived_tasks html_text (JInt 5) = Inl UnboundLocalError \<and>
   fst (run_transformation html_text (Some [Some (JInt 5), Some sample_issue])) = Some UnboundLocalError \<and>
   outfile (snd (run_transformation html_text (Some [Some (JInt 5), Some sample_issue]))) = []"
  by (simp add: create_derived_tasks_def run_transformation_def logging_def)

subsection \<open>Deduplication\<close>

lemma first_occurrences_snoc:
  "first_occurrences (xs @ [x]) = (if x \<in> set xs then first_occurrences xs else first_occurrences xs @ [x])"
  by (simp add: first_occurrences_def)

lemma set_first_occurrences: "set (first_occurrences xs) = set xs"
  by (simp add: first_occurrences_def)

lemma distinct_first_occurrences: "distinct (first_occurrences xs)"
  by (simp add: first_occurrences_def)

lemma count_list_distinct: "distinct xs \<Longrightarrow> count_list xs i = (if i \<in> set xs then 1 else 0)"
  by (induction xs) auto

lemma write_tasks_first:
  "map task_id (outfile st) = first_occurrences ids \<Longrightarrow> seen_task_ids st = set ids \<Longrightarrow>
   map task_id (outfile (write_tasks ts st)) = first_occurrences (ids @ map task_id ts) \<and>
   seen_task_ids (write_tasks ts st) = set (ids @ map task_id ts) \<and>
   set (outfile (write_tasks ts st)) \<subseteq> set (outfile st) \<union> set ts \<and>
   count (write_tasks ts st) = count st"
proof (induction ts arbitrary: st ids)
  case Nil
  then show ?case by simp
next
  case (Cons t ts)
  define st1 where "st1 =
    (if task_id t \<notin> seen_task_ids st
     then st\<lparr>outfile := outfile st @ [t], seen_task_ids := insert (task_id t) (seen_task_ids st),
             derived_count := derived_count st + 1\<rparr>
     else st)"
  have 1: "map task_id (outfile st1) = first_occurrences (ids @ [task_id t])"
    using Cons.prems by (simp add: st1_def first_occurrences_snoc)
  have 2: "seen_task_ids st1 = set (ids @ [task_id t])"
    using Cons.prems by (auto simp: st1_def)
  have 3: "set (outfile st1) \<subseteq> set (outfile st) \<union> {t}" and 4: "count st1 = count st"
    by (auto simp: st1_def)
  from Cons.IH [OF 1 2] 3 4 show ?case
    by (auto simp: st1_def [symmetric])
qed

lemma count_line_fields:
  "outfile (count_line st) = outfile st" "seen_task_ids (count_line st) = seen_task_ids st"
  by (simp_all add: count_line_def logging_def Let_def)

lemma logging_fields:
  "outfile (logging lv msg st) = outfile st" "seen_task_ids (logging lv msg st) = seen_task_ids st"
  by (simp_all add: logging_def)

lemma transform_lines_first:
  "map task_id (outfile st) = first_occurrences ids \<Longrightarrow> seen_task_ids st = set ids \<Longrightarrow>
   map task_id (outfile (snd (transform_lines html_text lines st)))
     = first_occurrences (ids @ map task_id (derived_tasks html_text lines)) \<and>
   set (outfile (snd (transform_lines html_text lines st)))
     \<subseteq> set (outfile st) \<union> set (derived_tasks html_text lines)"
proof (induction lines arbitrary: st ids)
  case Nil
  then show ?case by simp
next
  case (Cons line rest)
  show ?case
  proof (cases line)
    case None
    define st1 where "st1 = count_line (logging WARNING ''Skipping malformed line in raw file'' st)"
    have "map task_id (outfile st1) = first_occurrences ids" "seen_task_ids st1 = set ids"
      and o: "outfile st1 = outfile st"
      using Cons.prems by (simp_all add: st1_def count_line_fields logging_fields)
    from Cons.IH [OF this(1,2)] o show ?thesis
      using None by (simp add: st1_def [symmetric])
  next
    case (Some raw_issue)
    show ?thesis
    proof (cases "create_derived_tasks html_text raw_issue")
      case (Inl e)
      with Some Cons.prems show ?thesis by simp
    next
      case (Inr res)
      obtain ts ws where res: "res = (ts, ws)" by (cases res)
      define st0 where "st0 = st\<lparr>logged := logged st @ map (\<lambda>w. (WARNING, w)) ws\<rparr>"
      define st1 where "st1 = count_line (write_tasks ts st0)"
      have "map task_id (outfile st0) = first_occurrences ids" "seen_task_ids st0 = set ids"
        using Cons.prems by (simp_all add: st0_def)
      from write_tasks_first [OF this, of ts]
      have 1: "map task_id (outfile st1) = first_occurrences (ids @ map task_id ts)"
        and 2: "seen_task_ids st1 = set (ids @ map task_id ts)"
        and 3: "set (outfile st1) \<subseteq> set (outfile st) \<union> set ts"
        by (simp_all add: st1_def count_line_fields st0_def)
      from Cons.IH [OF 1 2] 3 show ?thesis
        using Some Inr res by (auto simp: st0_def [symmetric] st1_def [symmetric])
    qed
  qed
qed

lemma run_transformation_lines:
  "run_transformation html_text (Some lines) =
     (case transform_lines html_text lines
             (logging INFO ''--- Starting LLM transformation pipeline ---''
                \<lparr>outfile = [], seen_task_ids = {}, count = 0, derived_count = 0, logged = []\<rparr>) of
        (Some e, st) \<Rightarrow> (Some e, st)
      | (None, st) \<Rightarrow>
          (None,
           logging INFO (''Created '' @ str_nat (derived_count st) @ '' unique LLM-ready training examples.'')
             (logging INFO (''Processed '' @ str_nat (count st) @ '' raw issues.'')
                (logging INFO ''--- Transformation complete. ---'' st))))"
  by (simp add: run_transformation_def)

lemma run_transformation_outfile:
  "outfile (snd (run_transformation html_text (Some lines))) =
     outfile (snd (transform_lines html_text lines
       (logging INFO ''--- Starting LLM transformation pipeline ---''
          \<lparr>outfile = [], seen_task_ids = {}, count = 0, derived_count = 0, logged = []\<rparr>)))"
  and run_transformation_fst:
  "fst (run_transformation html_text (Some lines)) =
     fst (transform_lines html_text lines
       (logging INFO ''--- Starting LLM transformation pipeline ---''
          \<lparr>outfile = [], seen_task_ids = {}, count = 0, derived_count = 0, logged = []\<rparr>))"
  unfolding run_transformation_lines
  by (simp_all add: logging_fields split: prod.splits option.splits)

lemma run_transformation_first:
  "map task_id (outfile (snd (run_transformation html_text (Some lines))))
     = first_occurrences (map task_id (derived_tasks html_text lines)) \<and>
   set (outfile (snd (run_transformation html_text (Some lines)))) \<subseteq> set (derived_tasks html_text lines)"
proof -
  define st0 where "st0 = logging INFO ''--- Starting LLM transformation pipeline ---''
      \<lparr>outfile = [], seen_task_ids = {}, count = 0, derived_count = 0, logged = []\<rparr>"
  have "map task_id (outfile st0) = first_occurrences []" "seen_task_ids st0 = set []"
    and "outfile st0 = []"
    by (simp_all add: st0_def logging_def first_occurrences_def)
  from transform_lines_first [OF this(1,2), of html_text lines] this(3)
  show ?thesis
    unfolding run_transformation_outfile st0_def [symmetric] by simp
qed

lemma transform_lines_reaches:
  "fst (transform_lines html_text lines st) = None \<Longrightarrow> Some r \<in> set lines \<Longrightarrow>
   create_derived_tasks html_text r = Inr (ts, ws) \<Longrightarrow> set ts \<subseteq> set (derived_tasks html_text lines)"
proof (induction lines arbitrary: st)
  case Nil
  then show ?case by simp
next
  case (Cons line rest)
  show ?case
  proof (cases line)
    case None
    with Cons.prems Cons.IH show ?thesis by auto
  next
    case (Some raw_issue)
    show ?thesis
    proof (cases "create_derived_tasks html_text raw_issue")
      case (Inl e)
      with Some Cons.prems show ?thesis by simp
    next
      case (Inr res)
      obtain ts' ws' where res: "res = (ts', ws')" by (cases res)
      show ?thesis
      proof (cases "raw_issue = r")
        case True
        with Some Inr res Cons.prems(3) show ?thesis by auto
      next
        case False
        with Some Cons.prems(2) have "Some r \<in> set rest" by auto
        moreover from Cons.prems(1) Some Inr res
        have "fst (transform_lines html_text rest
                (count_line (write_tasks ts' (st\<lparr>logged := logged st @ map (\<lambda>w. (WARNING, w)) ws'\<rparr>)))) = None"
          by simp
        ultimately have "set ts \<subseteq> set (derived_tasks html_text rest)"
          using Cons.IH Cons.prems(3) by blast
        with Some Inr res show ?thesis by auto
      qed
    qed
  qed
qed

lemma run_transformation_distinct:
  "distinct (map task_id (outfile (snd (run_transformation html_text raw))))"
proof (cases raw)
  case None
  then show ?thesis by (simp add: run_transformation_def logging_def)
next
  case (Some lines)
  then show ?thesis
    using run_transformation_first [of html_text lines] by (simp add: distinct_first_occurrences)
qed

text \<open>
  Claim C9. In every run of the transformation pipeline the identifiers of the tasks
  written to the output are pairwise distinct. For every raw store, the identifiers
  written are those of the tasks derived from its records, each at its first occurrence
  and in that order, and every line written is one of these tasks: an identifier that is
  derived, however often, is written exactly once. So when a record is in a store that
  the run reads to its end, each of the record's tasks has its identifier in the output
  exactly once, whatever else the store holds and however often the record or its
  identifier comes again: its four tasks are written once, not twice.
\<close>

theorem dedup_output:
  "distinct (map task_id (outfile (snd (run_transformation html_text raw)))) \<and>
   map task_id (outfile (snd (run_transformation html_text (Some lines))))
     = first_occurrences (map task_id (derived_tasks html_text lines)) \<and>
   set (outfile (snd (run_transformation html_text (Some lines)))) \<subseteq> set (derived_tasks html_text lines) \<and>
   (\<forall>i. count_list (map task_id (outfile (snd (run_transformation html_text (Some lines))))) i
          = (if i \<in> set (map task_id (derived_tasks html_text lines)) then 1 else 0)) \<and>
   (fst (run_transformation html_text (Some lines)) = None \<and> Some r \<in> set lines \<and>
    create_derived_tasks html_text r = Inr (ts, ws) \<longrightarrow>
      (\<forall>t\<in>set ts. count_list (map task_id (outfile (snd (run_transformation html_text (Some lines)))))
                      (task_id t) = 1))"
proof -
  let ?out = "outfile (snd (run_transformation html_text (Some lines)))"
  note f = run_transformation_first [of html_text lines]
  have d: "distinct (map task_id ?out)" by (rule run_transformation_distinct)
  have s: "set (map task_id ?out) = set (map task_id (derived_tasks html_text lines))"
    using f by (simp add: set_first_occurrences)
  have c: "count_list (map task_id ?out) i
            = (if i \<in> set (map task_id (derived_tasks html_text lines)) then 1 else 0)" for i
    using count_list_distinct [OF d, of i] unfolding s .
  have r: "count_list (map task_id ?out) (task_id t) = 1"
    if "fst (run_transformation html_text (Some lines)) = None" "Some r \<in> set lines"
      "create_derived_tasks html_text r = Inr (ts, ws)" "t \<in> set ts" for t
  proof -
    from that(1) have "fst (transform_lines html_text lines
       (logging INFO ''--- Starting LLM transformation pipeline ---''
          \<lparr>outfile = [], seen_task_ids = {}, count = 0, derived_count = 0, logged = []\<rparr>)) = None"
      by (simp add: run_transformation_fst)
    from transform_lines_reaches [OF this that(2,3)] that(4)
    have "task_id t \<in> set (map task_id (derived_tasks html_text lines))" by auto
    with c [of "task_id t"] show ?thesis by simp
  qed
  from run_transformation_distinct [of html_text raw] f c r show ?thesis by blast
qed

lemma sample_derived:
  "map task_id (derived_tasks (get_text '' '') [None, Some sample_issue, Some sample_issue])
     = task_ids ''SPARK-1'' @ task_ids ''SPARK-1''"
  by code_simp

theorem dedup_output_witness:
  "length (derived_tasks (get_text '' '') [None, Some sample_issue, Some sample_issue]) = 8 \<and>
   map task_id (outfile (snd (run_transformation (get_text '' '') (Some [None, Some sample_issue, Some sample_issue]))))
     = [''SPARK-1_summary'', ''SPARK-1_qna_status'', ''SPARK-1_classify_priority'', ''SPARK-1_classify_type''] \<and>
   count_list (map task_id (outfile (snd (run_transformation (get_text '' '')
       (Some [None, Some sample_issue, Some sample_issue]))))) ''SPARK-1_summary'' = 1"
proof -
  have l: "length (derived_tasks (get_text '' '') [None, Some sample_issue, Some sample_issue]) = 8"
    using arg_cong [OF sample_derived, of length] by (simp add: task_ids_def)
  have fo: "first_occurrences (task_ids ''SPARK-1'' @ task_ids ''SPARK-1'')
      = [''SPARK-1_summary'', ''SPARK-1_qna_status'', ''SPARK-1_classify_priority'', ''SPARK-1_classify_type'']"
    by (simp add: first_occurrences_def task_ids_def)
  have i: "''SPARK-1_summary'' \<in> set (task_ids ''SPARK-1'' @ task_ids ''SPARK-1'')"
    by (simp add: task_ids_def)
  from dedup_output [of "get_text '' ''" "Some [None, Some sample_issue, Some sample_issue]"
      "[None, Some sample_issue, Some sample_issue]"]
  have "map task_id (outfile (snd (run_transformation (get_text '' '')
            (Some [None, Some sample_issue, Some sample_issue]))))
          = first_occurrences (task_ids ''SPARK-1'' @ task_ids ''SPARK-1'')"
    and "count_list (map task_id (outfile (snd (run_transformation (get_text '' '')
            (Some [None, Some sample_issue, Some sample_issue]))))) ''SPARK-1_summary''
          = (if ''SPARK-1_summary'' \<in> set (task_ids ''SPARK-1'' @ task_ids ''SPARK-1'') then 1 else 0)"
    unfolding sample_derived by blast+
  with l fo i show ?thesis by simp
qed

section \<open>Verification of the scraper\<close>

subsection \<open>Events and the states of a run\<close>

lemma persisted_after_append:
  "persisted_after cp (xs @ ys) = persisted_after (persisted_after cp xs) ys"
  by (induction cp xs rule: persisted_after.induct) simp_all

lemma persisted_after_requests [simp]:
  "persisted_after cp (replicate k (Requested p i)) = cp"
  by (induction k) simp_all

lemma snapshots_append: "snapshots (xs @ ys) = snapshots xs @ snapshots ys"
  by (induction xs rule: snapshots.induct) simp_all

lemma snapshots_requests [simp]: "snapshots (replicate k (Requested p i)) = []"
  by (induction k) simp_all

lemma extends_refl: "extends st [] st"
  by (simp add: extends_def)

lemma extends_trans: "extends st xs st1 \<Longrightarrow> extends st1 ys st2 \<Longrightarrow> extends st (xs @ ys) st2"
  by (simp add: extends_def persisted_after_append)

lemma extends_sleep: "extends st evs st' \<Longrightarrow> extends st evs (sleep ms st')"
  by (simp add: extends_def sleep_def)

lemma set_and_save_extends:
  "extends st [Saved (AList.update project m (checkpoint_data st))] (set_and_save project m st)"
  by (simp add: extends_def set_and_save_def save_checkpoint_def)

lemma save_issues_extends:
  "save_issues_to_jsonl env xs st = (ok, st') \<Longrightarrow>
   extends st [if ok then Appended xs else AppendFailed] st'"
  by (auto simp: save_issues_to_jsonl_def extends_def split: option.splits)

lemma fetch_attempts_extends:
  "\<exists>k. extends st (replicate k (Requested p s)) (snd (fetch_attempts env p s n st))"
proof (induction n arbitrary: st)
  case 0
  show ?case by (rule exI [of _ 0]) (simp add: extends_def)
next
  case (Suc n)
  define st1 where "st1 = st\<lparr>requests := requests st + 1, trace := trace st @ [Requested p s]\<rparr>"
  have one: "extends st (replicate 1 (Requested p s)) st1"
    by (simp add: extends_def st1_def)
  have more: "\<exists>k. extends st (replicate k (Requested p s)) (snd (fetch_attempts env p s n (sleep ms st1)))" for ms
  proof -
    from Suc.IH [of "sleep ms st1"] obtain k where
      "extends (sleep ms st1) (replicate k (Requested p s)) (snd (fetch_attempts env p s n (sleep ms st1)))" ..
    with extends_sleep [OF one, of ms]
    have "extends st (replicate 1 (Requested p s) @ replicate k (Requested p s))
            (snd (fetch_attempts env p s n (sleep ms st1)))"
      by (rule extends_trans)
    then have "extends st (replicate (1 + k) (Requested p s)) (snd (fetch_attempts env p s n (sleep ms st1)))"
      by (simp only: replicate_add)
    then show ?thesis ..
  qed
  have stop: "\<exists>k. extends st (replicate k (Requested p s)) st1"
    using one ..
  show ?case
    using more stop unfolding st1_def
    by (auto simp: Let_def split: http_outcome.splits)
qed

lemma fetch_jira_page_extends:
  "fetch_jira_page env p s st = (r, st1) \<Longrightarrow> \<exists>k. extends st (replicate k (Requested p s)) st1"
  using fetch_attempts_extends [of st p s env MAX_RETRIES] by (simp add: fetch_jira_page_def)

subsection \<open>One pass through the loop body\<close>

text \<open>
  The five ways through the body of \<^verbatim>\<open>while True\<close>, each with the events it adds: the
  fetch failed or the first page reported no issue (\<open>stop\<close>); the page was empty
  (\<open>finished_empty\<close>); the append failed (\<open>abort\<close>); the page was stored and the
  checkpoint advanced, to the end of the project (\<open>finished\<close>) or not (\<open>again\<close>).
\<close>

lemma loop_body_cases [consumes 1, case_names stop finished_empty abort finished again]:
  assumes "loop_body env p i t st = r"
  obtains
    (stop) k st' where "r = Exit Break st'" "extends st (replicate k (Requested p i)) st'"
  | (finished_empty) k st' where "r = Exit Break st'"
      "extends st (replicate k (Requested p i) @ [Saved (AList.update p COMPLETED (checkpoint_data st))]) st'"
  | (abort) k st' where "r = Exit Return st'"
      "extends st (replicate k (Requested p i) @ [AppendFailed]) st'"
  | (finished) k xs i1 st' where "r = Exit Break st'" "i < i1"
      "extends st (replicate k (Requested p i) @
         [Appended xs, Saved (AList.update p (Offset i1) (checkpoint_data st)),
          Saved (AList.update p COMPLETED (AList.update p (Offset i1) (checkpoint_data st)))]) st'"
  | (again) k xs i1 t1 st' where "r = Next i1 t1 st'" "i < i1"
      "extends st (replicate k (Requested p i) @
         [Appended xs, Saved (AList.update p (Offset i1) (checkpoint_data st))]) st'"
proof -
  obtain pg st1 where f: "fetch_jira_page env p i st = (pg, st1)"
    by (cases "fetch_jira_page env p i st")
  from fetch_jira_page_extends [OF f] obtain k where k: "extends st (replicate k (Requested p i)) st1" ..
  then have cd1: "checkpoint_data st1 = checkpoint_data st" by (simp add: extends_def)
  show thesis
  proof (cases pg)
    case None
    with f assms have r: "r = Exit Break st1" by (simp add: loop_body_def)
    from r k show thesis by (rule stop)
  next
    case (Some data)
    define total1 where "total1 = (if t = - 1 then (case total data of None \<Rightarrow> 0 | Some n \<Rightarrow> n) else t)"
    define xs where "xs = (case issues data of None \<Rightarrow> [] | Some ys \<Rightarrow> ys)"
    show thesis
    proof (cases "t = - 1 \<and> total1 = 0")
      case True
      with f Some assms have r: "r = Exit Break st1"
        by (auto simp: loop_body_def total1_def Let_def)
      from r k show thesis by (rule stop)
    next
      case nz: False
      show thesis
      proof (cases "xs = []")
        case True
        with f Some assms nz have r: "r = Exit Break (set_and_save p COMPLETED st1)"
          by (auto simp: loop_body_def total1_def xs_def Let_def)
        from extends_trans [OF k set_and_save_extends [of st1 p COMPLETED]]
        have e: "extends st (replicate k (Requested p i) @ [Saved (AList.update p COMPLETED (checkpoint_data st))])
                (set_and_save p COMPLETED st1)"
          by (simp add: cd1)
        from r e show thesis by (rule finished_empty)
      next
        case ne: False
        obtain ok st2 where w: "save_issues_to_jsonl env xs st1 = (ok, st2)"
          by (cases "save_issues_to_jsonl env xs st1")
        from save_issues_extends [OF w]
        have e2: "extends st1 [if ok then Appended xs else AppendFailed] st2" .
        then have cd2: "checkpoint_data st2 = checkpoint_data st"
          by (auto simp: extends_def cd1 split: if_splits)
        show thesis
        proof (cases ok)
          case False
          with f Some assms nz ne w have r: "r = Exit Return st2"
            by (auto simp: loop_body_def total1_def xs_def Let_def)
          from extends_trans [OF k e2] False
          have e: "extends st (replicate k (Requested p i) @ [AppendFailed]) st2" by simp
          from r e show thesis by (rule abort)
        next
          case True
          define i1 where "i1 = i + int (length xs)"
          define st3 where "st3 = set_and_save p (Offset i1) st2"
          have lt: "i < i1" using ne by (simp add: i1_def)
          have e3: "extends st (replicate k (Requested p i) @
              [Appended xs, Saved (AList.update p (Offset i1) (checkpoint_data st))]) st3"
            using extends_trans [OF extends_trans [OF k e2] set_and_save_extends [of st2 p "Offset i1"]] True
            by (simp add: st3_def cd2)
          then have cd3: "checkpoint_data st3 = AList.update p (Offset i1) (checkpoint_data st)"
            by (simp add: extends_def persisted_after_append)
          show thesis
          proof (cases "i1 \<ge> total1")
            case reached: True
            with f Some assms nz ne w \<open>ok\<close> have r: "r = Exit Break (set_and_save p COMPLETED st3)"
              by (auto simp: loop_body_def total1_def xs_def Let_def i1_def st3_def)
            from extends_trans [OF e3 set_and_save_extends [of st3 p COMPLETED]]
            have e: "extends st (replicate k (Requested p i) @
                [Appended xs, Saved (AList.update p (Offset i1) (checkpoint_data st)),
                 Saved (AList.update p COMPLETED (AList.update p (Offset i1) (checkpoint_data st)))])
                (set_and_save p COMPLETED st3)"
              by (simp add: cd3)
            from r lt e show thesis by (rule finished)
          next
            case below: False
            with f Some assms nz ne w \<open>ok\<close> have r: "r = Next i1 total1 (sleep 300 st3)"
              by (auto simp: loop_body_def total1_def xs_def Let_def i1_def st3_def)
            from r lt extends_sleep [OF e3] show thesis by (rule again)
          qed
        qed
      qed
    qed
  qed
qed

subsection \<open>Retries of the fetcher\<close>

lemma fetch_attempts_transient:
  assumes "\<forall>k<n. transient (http_get env (requests st + k) p s)"
  shows "fst (fetch_attempts env p s n st) = None \<and>
         requests (snd (fetch_attempts env p s n st)) = requests st + n \<and>
         slept_ms (snd (fetch_attempts env p s n st)) =
           slept_ms st + (\<Sum>k<n. backoff_ms (http_get env (requests st + k) p s))"
  using assms
proof (induction n arbitrary: st)
  case 0
  show ?case by simp
next
  case (Suc n)
  define st1 where "st1 = st\<lparr>requests := requests st + 1, trace := trace st @ [Requested p s]\<rparr>"
  define r where "r = http_get env (requests st) p s"
  from Suc.prems have tr: "transient r" unfolding r_def by (metis add.right_neutral zero_less_Suc)
  have step: "fetch_attempts env p s (Suc n) st = fetch_attempts env p s n (sleep (backoff_ms r) st1)"
    using tr
    by (auto simp: r_def [symmetric] st1_def Let_def transient_def backoff_ms_def
        split: http_outcome.splits)
  have rq: "requests (sleep (backoff_ms r) st1) = requests st + 1"
    and sl: "slept_ms (sleep (backoff_ms r) st1) = slept_ms st + backoff_ms r"
    by (simp_all add: sleep_def st1_def)
  have "\<forall>k<n. transient (http_get env (requests (sleep (backoff_ms r) st1) + k) p s)"
  proof (intro allI impI)
    fix k assume "k < n"
    then have "Suc k < Suc n" by simp
    with Suc.prems have "transient (http_get env (requests st + Suc k) p s)" by blast
    then show "transient (http_get env (requests (sleep (backoff_ms r) st1) + k) p s)"
      by (simp add: rq)
  qed
  from Suc.IH [OF this]
  have ih: "fst (fetch_attempts env p s (Suc n) st) = None \<and>
      requests (snd (fetch_attempts env p s (Suc n) st)) = requests st + 1 + n \<and>
      slept_ms (snd (fetch_attempts env p s (Suc n) st)) =
        slept_ms st + backoff_ms r + (\<Sum>k<n. backoff_ms (http_get env (requests st + 1 + k) p s))"
    unfolding step rq sl .
  have "(\<Sum>k<Suc n. backoff_ms (http_get env (requests st + k) p s)) =
        backoff_ms r + (\<Sum>k<n. backoff_ms (http_get env (requests st + 1 + k) p s))"
    unfolding sum.lessThan_Suc_shift by (simp add: r_def)
  with ih show ?case by simp
qed

lemma backoff_ms_ge: "15000 \<le> backoff_ms r"
  by (simp add: backoff_ms_def split: http_outcome.splits)

lemma sum_backoff_ge: "n * 15000 \<le> (\<Sum>k<n. backoff_ms (f k))"
proof -
  have "(\<Sum>k<n. 15000) \<le> (\<Sum>k<n. backoff_ms (f k))"
    by (rule sum_mono) (rule backoff_ms_ge)
  then show ?thesis by simp
qed

text \<open>
  Claim C6. If each of the requests of one call of the fetcher fails transiently (HTTP 429,
  HTTP 5xx or a network error), the call returns the page-level failure \<^verbatim>\<open>None\<close> after
  exactly \<^verbatim>\<open>MAX_RETRIES\<close> requests: a 429 response takes one attempt of the budget as any
  other transient failure does. The time slept is the sum of the waits (60 s after a 429,
  15 s otherwise), hence at least \<^verbatim>\<open>(MAX_RETRIES - 1) * 15\<close> seconds.
\<close>

theorem retry_exhaustion:
  assumes "\<forall>k<MAX_RETRIES. transient (http_get env (requests st + k) project_key start_at)"
  shows "fst (fetch_jira_page env project_key start_at st) = None \<and>
         requests (snd (fetch_jira_page env project_key start_at st)) = requests st + MAX_RETRIES \<and>
         slept_ms (snd (fetch_jira_page env project_key start_at st)) =
           slept_ms st + (\<Sum>k<MAX_RETRIES. backoff_ms (http_get env (requests st + k) project_key start_at)) \<and>
         slept_ms st + (MAX_RETRIES - 1) * 15000 \<le> slept_ms (snd (fetch_jira_page env project_key start_at st))"
proof -
  note t = fetch_attempts_transient [OF assms]
  have "(MAX_RETRIES - 1) * 15000 \<le> MAX_RETRIES * 15000" by simp
  also have "\<dots> \<le> (\<Sum>k<MAX_RETRIES. backoff_ms (http_get env (requests st + k) project_key start_at))"
    by (rule sum_backoff_ge)
  finally show ?thesis
    using t by (simp add: fetch_jira_page_def)
qed

lemma server_down_transient: "transient (http_get server_down n p s)"
  by (simp add: server_down_def transient_def)

theorem retry_exhaustion_witness:
  "fst (fetch_jira_page server_down ''SPARK'' 0 (fresh_scraper [''SPARK''])) = None \<and>
   requests (snd (fetch_jira_page server_down ''SPARK'' 0 (fresh_scraper [''SPARK'']))) = 5 \<and>
   slept_ms (snd (fetch_jira_page server_down ''SPARK'' 0 (fresh_scraper [''SPARK'']))) = 75000"
  using retry_exhaustion [of server_down "fresh_scraper [''SPARK'']" "''SPARK''" 0]
  by (simp add: server_down_transient)
    (simp add: server_down_def backoff_ms_def MAX_RETRIES_def fresh_scraper_def)

subsection \<open>A project without issues\<close>

text \<open>
  Claim C2, as it is stated, fails: when the first page of a project reports a total of
  zero, the run neither marks the project \<^verbatim>\<open>"COMPLETED"\<close> nor writes any snapshot.
\<close>

theorem total_zero_counterexample:
  "fst (fetch_jira_page empty_server ''SPARK'' 0 (fresh_scraper [''SPARK''])) = Some \<lparr>total = Some 0, issues = Some []\<rparr> \<and>
   get_marker (checkpoint_file (snd (run_pipeline empty_server (fresh_scraper [''SPARK''])))) ''SPARK'' = Offset 0 \<and>
   get_marker (checkpoint_data (snd (run_pipeline empty_server (fresh_scraper [''SPARK''])))) ''SPARK'' \<noteq> COMPLETED \<and>
   snapshots (trace (snd (run_pipeline empty_server (fresh_scraper [''SPARK''])))) = []"
  by code_simp

text \<open>
  Claim C2, amended. When the first page fetched for a project in a run reports a total of
  zero (or no total), the loop for that project ends there, with \<^verbatim>\<open>break\<close>: nothing more
  is requested for the project in this run, and the checkpoint, in memory and in the
  file, stays as it was; the project is not marked \<^verbatim>\<open>"COMPLETED"\<close>.
\<close>

theorem total_zero_stops:
  assumes "fetch_jira_page env project current_index st = (Some data, st1)"
    and "(case total data of None \<Rightarrow> 0 | Some t \<Rightarrow> t) = 0"
  shows "fetch_loop env project current_index (- 1) st = (Break, st1) \<and>
         checkpoint_data st1 = checkpoint_data st \<and> checkpoint_file st1 = checkpoint_file st \<and>
         snapshots (trace st1) = snapshots (trace st)"
proof -
  from assms have "loop_body env project current_index (- 1) st = Exit Break st1"
    by (simp add: loop_body_def)
  then have "fetch_loop env project current_index (- 1) st = (Break, st1)"
    by simp
  moreover from fetch_jira_page_extends [OF assms(1)]
  have "checkpoint_data st1 = checkpoint_data st \<and> checkpoint_file st1 = checkpoint_file st \<and>
        snapshots (trace st1) = snapshots (trace st)"
    by (auto simp: extends_def snapshots_append)
  ultimately show ?thesis by simp
qed

theorem total_zero_stops_witness:
  "fetch_jira_page empty_server ''SPARK'' 0 (fresh_scraper [''SPARK''])
     = (Some empty_page, (fresh_scraper [''SPARK''])\<lparr>requests := 1, trace := [Requested ''SPARK'' 0]\<rparr>) \<and>
   fetch_loop empty_server ''SPARK'' 0 (- 1) (fresh_scraper [''SPARK''])
     = (Break, (fresh_scraper [''SPARK''])\<lparr>requests := 1, trace := [Requested ''SPARK'' 0]\<rparr>)"
proof -
  have f: "fetch_jira_page empty_server ''SPARK'' 0 (fresh_scraper [''SPARK''])
     = (Some empty_page, (fresh_scraper [''SPARK''])\<lparr>requests := 1, trace := [Requested ''SPARK'' 0]\<rparr>)"
    by code_simp
  have z: "(case total empty_page of None \<Rightarrow> 0 | Some t \<Rightarrow> t) = 0"
    by (simp add: empty_page_def)
  from total_zero_stops [OF f z] f show ?thesis by simp
qed

subsection \<open>A failed append ends the run\<close>

lemma clean_exit_prepend:
  "AppendFailed \<notin> set xs \<Longrightarrow> clean_exit how ys \<Longrightarrow> clean_exit how (xs @ ys)"
  by (cases how) (auto simp: clean_exit_def butlast_append)

lemma fetch_loop_clean_exit:
  "fetch_loop env p i t st = (how, st') \<Longrightarrow> \<exists>evs. extends st evs st' \<and> clean_exit how evs"
proof (induction env p i t st arbitrary: how st' rule: fetch_loop.induct)
  case (1 env p i t st)
  from refl [of "loop_body env p i t st"] show ?case
  proof (cases rule: loop_body_cases)
    case (stop k st1)
    with "1.prems" have "how = Break" "st' = st1" by simp_all
    with stop(2) show ?thesis by (auto simp: clean_exit_def)
  next
    case (finished_empty k st1)
    with "1.prems" have "how = Break" "st' = st1" by simp_all
    with finished_empty(2) show ?thesis by (auto simp: clean_exit_def)
  next
    case (abort k st1)
    with "1.prems" have "how = Return" "st' = st1" by simp_all
    with abort(2) show ?thesis by (auto simp: clean_exit_def)
  next
    case (finished k xs i1 st1)
    with "1.prems" have "how = Break" "st' = st1" by simp_all
    with finished(3) show ?thesis by (auto simp: clean_exit_def)
  next
    case (again k xs i1 t1 st1)
    with "1.prems" have "fetch_loop env p i1 t1 st1 = (how, st')" by simp
    from "1.IH" [OF again(1) this] obtain evs where
      evs: "extends st1 evs st'" "clean_exit how evs" by blast
    have nf: "AppendFailed \<notin> set (replicate k (Requested p i) @
        [Appended xs, Saved (AList.update p (Offset i1) (checkpoint_data st))])"
      by auto
    from extends_trans [OF again(3) evs(1)] clean_exit_prepend [OF nf evs(2)]
    show ?thesis by blast
  qed
qed

lemma run_projects_clean_exit:
  "run_projects env ps st = (how, st') \<Longrightarrow> \<exists>evs. extends st evs st' \<and> clean_exit how evs"
proof (induction ps arbitrary: st)
  case Nil
  then show ?case by (auto simp: clean_exit_def extends_def)
next
  case (Cons p ps)
  show ?case
  proof (cases "get_marker (checkpoint_data st) p")
    case COMPLETED
    with Cons.prems have "run_projects env ps st = (how, st')" by simp
    from Cons.IH [OF this] show ?thesis .
  next
    case (Offset i)
    obtain h1 st1 where l: "fetch_loop env p i (- 1) st = (h1, st1)"
      by (cases "fetch_loop env p i (- 1) st")
    from fetch_loop_clean_exit [OF l] obtain evs1 where
      evs1: "extends st evs1 st1" "clean_exit h1 evs1" by blast
    show ?thesis
    proof (cases h1)
      case Return
      with Cons.prems Offset l have "how = Return" "st' = st1" by simp_all
      with evs1 Return show ?thesis by blast
    next
      case Break
      with Cons.prems Offset l have "run_projects env ps st1 = (how, st')" by simp
      from Cons.IH [OF this] obtain evs2 where
        evs2: "extends st1 evs2 st'" "clean_exit how evs2" by blast
      from evs1(2) Break have "AppendFailed \<notin> set evs1" by (simp add: clean_exit_def)
      from extends_trans [OF evs1(1) evs2(1)] clean_exit_prepend [OF this evs2(2)]
      show ?thesis by blast
    qed
  qed
qed

text \<open>
  Claim C4. If an append of a fetched page to the output file fails in a run, the run
  ends with \<^verbatim>\<open>return\<close> and the failed append is its last effect: no request for any
  project and no checkpoint snapshot follows it. The checkpoint file and the in-memory
  mapping are what the last snapshot written before the failed append made them (or what
  they were at the start, if there was none): the checkpoint did not advance over the
  page that was not written.
\<close>

theorem failed_append_aborts:
  assumes "trace st = []"
    and "AppendFailed \<in> set (trace (snd (run_pipeline env st)))"
  shows "fst (run_pipeline env st) = Return \<and>
         (\<exists>evs. trace (snd (run_pipeline env st)) = evs @ [AppendFailed] \<and>
                AppendFailed \<notin> set evs \<and>
                checkpoint_file (snd (run_pipeline env st)) = persisted_after (checkpoint_file st) evs \<and>
                checkpoint_data (snd (run_pipeline env st)) = persisted_after (checkpoint_data st) evs)"
proof -
  obtain how st' where r: "run_pipeline env st = (how, st')"
    by (cases "run_pipeline env st")
  then have "run_projects env (projects_to_fetch st) st = (how, st')"
    by (simp add: run_pipeline_def)
  from run_projects_clean_exit [OF this] obtain evs where
    evs: "extends st evs st'" "clean_exit how evs" by blast
  from evs(1) assms(1) have tr: "trace st' = evs" by (simp add: extends_def)
  with assms(2) r have "AppendFailed \<in> set evs" by simp
  with evs(2) have how: "how = Return" and ne: "evs \<noteq> []" and la: "last evs = AppendFailed"
    and bl: "AppendFailed \<notin> set (butlast evs)"
    by (cases how; simp add: clean_exit_def)+
  from ne la have split: "evs = butlast evs @ [AppendFailed]"
    by (metis append_butlast_last_id)
  have pa: "persisted_after cp evs = persisted_after cp (butlast evs)" for cp
    by (subst split) (simp add: persisted_after_append)
  from evs(1) have "checkpoint_file st' = persisted_after (checkpoint_file st) (butlast evs)"
    and "checkpoint_data st' = persisted_after (checkpoint_data st) (butlast evs)"
    by (simp_all add: extends_def pa)
  with how tr split bl show ?thesis
    unfolding r by (intro conjI exI [of _ "butlast evs"]) simp_all
qed

theorem failed_append_aborts_witness:
  "trace (fresh_scraper [''A'', ''B'']) = [] \<and>
   AppendFailed \<in> set (trace (snd (run_pipeline full_disk (fresh_scraper [''A'', ''B''])))) \<and>
   fst (run_pipeline full_disk (fresh_scraper [''A'', ''B''])) = Return \<and>
   (\<exists>evs. trace (snd (run_pipeline full_disk (fresh_scraper [''A'', ''B'']))) = evs @ [AppendFailed] \<and>
          AppendFailed \<notin> set evs \<and>
          checkpoint_file (snd (run_pipeline full_disk (fresh_scraper [''A'', ''B''])))
            = persisted_after (checkpoint_file (fresh_scraper [''A'', ''B''])) evs)"
proof -
  have t: "trace (fresh_scraper [''A'', ''B'']) = []"
    by (simp add: fresh_scraper_def)
  have a: "AppendFailed \<in> set (trace (snd (run_pipeline full_disk (fresh_scraper [''A'', ''B'']))))"
    by code_simp
  from failed_append_aborts [OF t a] t a show ?thesis by blast
qed

subsection \<open>The values of a project only grow\<close>

lemma get_marker_update:
  "get_marker (AList.update p m cp) q = (if q = p then m else get_marker cp q)"
  by (simp add: get_marker_def update_conv')

lemma marker_le_refl [simp]: "marker_le m m"
  by (cases m) simp_all

lemma monotone_from_append:
  "monotone_from q (get_marker cp q) (xs @ ys) =
     (monotone_from q (get_marker cp q) xs \<and>
      monotone_from q (get_marker (persisted_after cp xs) q) ys)"
proof (induction xs arbitrary: cp)
  case Nil
  show ?case by simp
next
  case (Cons e xs)
  show ?case
  proof (cases e)
    case (Saved cp')
    with Cons [of cp'] show ?thesis by auto
  qed (use Cons [of cp] in auto)
qed

lemma monotone_from_requests:
  "m \<noteq> COMPLETED \<or> p \<noteq> q \<Longrightarrow> monotone_from q m (replicate k (Requested p i))"
  by (induction k) auto

lemma loop_body_monotone:
  assumes "get_marker (checkpoint_data st) p = Offset i"
    and "extends st evs st'"
    and "evs = replicate k (Requested p i) @ rest"
    and "rest = [] \<or> rest = [Saved (AList.update p COMPLETED (checkpoint_data st))] \<or> rest = [AppendFailed] \<or>
         (\<exists>xs i1. i < i1 \<and> (rest = [Appended xs, Saved (AList.update p (Offset i1) (checkpoint_data st)),
             Saved (AList.update p COMPLETED (AList.update p (Offset i1) (checkpoint_data st)))] \<or>
            rest = [Appended xs, Saved (AList.update p (Offset i1) (checkpoint_data st))]))"
  shows "monotone_from q (get_marker (checkpoint_data st) q) evs"
proof -
  have rq: "monotone_from q (get_marker (checkpoint_data st) q) (replicate k (Requested p i))"
    by (rule monotone_from_requests) (use assms(1) in auto)
  have "monotone_from q (get_marker (checkpoint_data st) q) rest"
    using assms(4) assms(1) by (auto simp: get_marker_update)
  with rq show ?thesis
    unfolding assms(3) by (simp add: monotone_from_append)
qed

lemma fetch_loop_monotone:
  "get_marker (checkpoint_data st) p = Offset i \<Longrightarrow> fetch_loop env p i t st = (how, st') \<Longrightarrow>
   \<exists>evs. extends st evs st' \<and> monotone_from q (get_marker (checkpoint_data st) q) evs"
proof (induction env p i t st arbitrary: how st' rule: fetch_loop.induct)
  case (1 env p i t st)
  note m = loop_body_monotone [OF "1.prems"(1), of _ _ _ _ q]
  from refl [of "loop_body env p i t st"] show ?case
  proof (cases rule: loop_body_cases)
    case (stop k st1)
    with "1.prems" have "st' = st1" by simp
    with stop(2) m [OF stop(2), of k "[]"] show ?thesis by auto
  next
    case (finished_empty k st1)
    with "1.prems" have "st' = st1" by simp
    with finished_empty(2) m [OF finished_empty(2) refl] show ?thesis by auto
  next
    case (abort k st1)
    with "1.prems" have "st' = st1" by simp
    with abort(2) m [OF abort(2) refl] show ?thesis by auto
  next
    case (finished k xs i1 st1)
    with "1.prems" have "st' = st1" by simp
    with finished(2,3) m [OF finished(3) refl] show ?thesis by auto
  next
    case (again k xs i1 t1 st1)
    with "1.prems" have l: "fetch_loop env p i1 t1 st1 = (how, st')" by simp
    from again(3) have cd1: "checkpoint_data st1 = AList.update p (Offset i1) (checkpoint_data st)"
      by (simp add: extends_def persisted_after_append)
    then have "get_marker (checkpoint_data st1) p = Offset i1"
      by (simp add: get_marker_update)
    from "1.IH" [OF again(1) this l] obtain evs where
      evs: "extends st1 evs st'" "monotone_from q (get_marker (checkpoint_data st1) q) evs" by blast
    from again(3) have pa: "checkpoint_data st1 = persisted_after (checkpoint_data st)
        (replicate k (Requested p i) @ [Appended xs, Saved (AList.update p (Offset i1) (checkpoint_data st))])"
      by (simp add: extends_def)
    from again(2) m [OF again(3) refl]
    have "monotone_from q (get_marker (checkpoint_data st) q)
        (replicate k (Requested p i) @ [Appended xs, Saved (AList.update p (Offset i1) (checkpoint_data st))])"
      by auto
    with evs(2) have "monotone_from q (get_marker (checkpoint_data st) q)
        ((replicate k (Requested p i) @ [Appended xs, Saved (AList.update p (Offset i1) (checkpoint_data st))]) @ evs)"
      unfolding monotone_from_append pa [symmetric] by simp
    with extends_trans [OF again(3) evs(1)] show ?thesis by blast
  qed
qed

lemma run_projects_monotone:
  "run_projects env ps st = (how, st') \<Longrightarrow>
   \<exists>evs. extends st evs st' \<and> monotone_from q (get_marker (checkpoint_data st) q) evs"
proof (induction ps arbitrary: st)
  case Nil
  then show ?case by (auto simp: extends_def)
next
  case (Cons p ps)
  show ?case
  proof (cases "get_marker (checkpoint_data st) p")
    case COMPLETED
    with Cons.prems have "run_projects env ps st = (how, st')" by simp
    from Cons.IH [OF this] show ?thesis .
  next
    case (Offset i)
    obtain h1 st1 where l: "fetch_loop env p i (- 1) st = (h1, st1)"
      by (cases "fetch_loop env p i (- 1) st")
    from fetch_loop_monotone [OF Offset l] obtain evs1 where
      evs1: "extends st evs1 st1" "monotone_from q (get_marker (checkpoint_data st) q) evs1" by blast
    show ?thesis
    proof (cases h1)
      case Return
      with Cons.prems Offset l have "st' = st1" by simp
      with evs1 show ?thesis by blast
    next
      case Break
      with Cons.prems Offset l have "run_projects env ps st1 = (how, st')" by simp
      from Cons.IH [OF this] obtain evs2 where
        evs2: "extends st1 evs2 st'" "monotone_from q (get_marker (checkpoint_data st1) q) evs2" by blast
      from evs1(1) have "checkpoint_data st1 = persisted_after (checkpoint_data st) evs1"
        by (simp add: extends_def)
      with evs1(2) evs2(2) have "monotone_from q (get_marker (checkpoint_data st) q) (evs1 @ evs2)"
        by (simp add: monotone_from_append)
      with extends_trans [OF evs1(1) evs2(1)] show ?thesis by blast
    qed
  qed
qed

text \<open>
  Claim C5. For every project, along the effects of a run: each snapshot written holds a
  value for the project that is not below the value before it (an offset grows or
  becomes \<^verbatim>\<open>"COMPLETED"\<close>, and \<^verbatim>\<open>"COMPLETED"\<close> stays), starting from the value in the
  mapping at the start of the run; and no request is made for the project while its value
  is \<^verbatim>\<open>"COMPLETED"\<close>, so a project that is completed at the start is skipped.
\<close>

theorem marker_monotone:
  assumes "trace st = []"
  shows "monotone_from project (get_marker (checkpoint_data st) project) (trace (snd (run_pipeline env st)))"
proof -
  obtain how st' where r: "run_pipeline env st = (how, st')"
    by (cases "run_pipeline env st")
  then have "run_projects env (projects_to_fetch st) st = (how, st')"
    by (simp add: run_pipeline_def)
  from run_projects_monotone [OF this, of project] assms show ?thesis
    unfolding r by (auto simp: extends_def)
qed

theorem marker_monotone_witness:
  "trace (fresh_scraper [''A'', ''B'']) = [] \<and>
   monotone_from ''A'' (Offset 0) (trace (snd (run_pipeline small_server (fresh_scraper [''A'', ''B''])))) \<and>
   snapshots (trace (snd (run_pipeline small_server (fresh_scraper [''A'', ''B''])))) =
     [[(''A'', Offset 2), (''B'', Offset 0)], [(''A'', Offset 3), (''B'', Offset 0)],
      [(''A'', COMPLETED), (''B'', Offset 0)], [(''A'', COMPLETED), (''B'', Offset 2)],
      [(''A'', COMPLETED), (''B'', Offset 3)], [(''A'', COMPLETED), (''B'', COMPLETED)]]"
proof -
  have t: "trace (fresh_scraper [''A'', ''B'']) = []"
    by (simp add: fresh_scraper_def)
  have m: "get_marker (checkpoint_data (fresh_scraper [''A'', ''B''])) ''A'' = Offset 0"
    by (simp add: fresh_scraper_def get_marker_def)
  have s: "snapshots (trace (snd (run_pipeline small_server (fresh_scraper [''A'', ''B''])))) =
     [[(''A'', Offset 2), (''B'', Offset 0)], [(''A'', Offset 3), (''B'', Offset 0)],
      [(''A'', COMPLETED), (''B'', Offset 0)], [(''A'', COMPLETED), (''B'', Offset 2)],
      [(''A'', COMPLETED), (''B'', Offset 3)], [(''A'', COMPLETED), (''B'', COMPLETED)]]"
    by code_simp
  from marker_monotone [OF t, of "''A''" small_server] t s show ?thesis
    unfolding m by simp
qed

subsection \<open>The other projects keep their values\<close>

lemma map_of_update_other: "q \<noteq> p \<Longrightarrow> map_of (AList.update p m cp) q = map_of cp q"
  by (simp add: update_conv')

lemma persisted_after_snapshots:
  "persisted_after cp evs = (if snapshots evs = [] then cp else last (snapshots evs))"
  by (induction cp evs rule: persisted_after.induct) auto

lemma persisted_after_frame:
  "list_all (\<lambda>c. map_of c q = v) (snapshots evs) \<Longrightarrow> map_of cp q = v \<Longrightarrow>
   map_of (persisted_after cp evs) q = v"
  by (induction cp evs rule: persisted_after.induct) auto

lemma fetch_loop_frame:
  "q \<noteq> p \<Longrightarrow> fetch_loop env p i t st = (how, st') \<Longrightarrow>
   \<exists>evs. extends st evs st' \<and> list_all (\<lambda>c. map_of c q = map_of (checkpoint_data st) q) (snapshots evs)"
proof (induction env p i t st arbitrary: how st' rule: fetch_loop.induct)
  case (1 env p i t st)
  note u = map_of_update_other [OF "1.prems"(1)]
  from refl [of "loop_body env p i t st"] show ?case
  proof (cases rule: loop_body_cases)
    case (stop k st1)
    with "1.prems" have "st' = st1" by simp
    moreover have "list_all (\<lambda>c. map_of c q = map_of (checkpoint_data st) q)
        (snapshots (replicate k (Requested p i)))"
      by simp
    ultimately show ?thesis using stop(2) by blast
  next
    case (finished_empty k st1)
    with "1.prems" have "st' = st1" by simp
    moreover have "list_all (\<lambda>c. map_of c q = map_of (checkpoint_data st) q)
        (snapshots (replicate k (Requested p i) @ [Saved (AList.update p COMPLETED (checkpoint_data st))]))"
      by (simp add: snapshots_append u)
    ultimately show ?thesis using finished_empty(2) by blast
  next
    case (abort k st1)
    with "1.prems" have "st' = st1" by simp
    moreover have "list_all (\<lambda>c. map_of c q = map_of (checkpoint_data st) q)
        (snapshots (replicate k (Requested p i) @ [AppendFailed]))"
      by (simp add: snapshots_append)
    ultimately show ?thesis using abort(2) by blast
  next
    case (finished k xs i1 st1)
    with "1.prems" have "st' = st1" by simp
    moreover have "list_all (\<lambda>c. map_of c q = map_of (checkpoint_data st) q)
        (snapshots (replicate k (Requested p i) @
           [Appended xs, Saved (AList.update p (Offset i1) (checkpoint_data st)),
            Saved (AList.update p COMPLETED (AList.update p (Offset i1) (checkpoint_data st)))]))"
      by (simp add: snapshots_append u)
    ultimately show ?thesis using finished(3) by blast
  next
    case (again k xs i1 t1 st1)
    with "1.prems" have l: "fetch_loop env p i1 t1 st1 = (how, st')" by simp
    from again(3) have cd1: "checkpoint_data st1 = AList.update p (Offset i1) (checkpoint_data st)"
      by (simp add: extends_def persisted_after_append)
    from "1.IH" [OF again(1) "1.prems"(1) l] obtain evs where
      evs: "extends st1 evs st'"
        "list_all (\<lambda>c. map_of c q = map_of (checkpoint_data st1) q) (snapshots evs)" by blast
    from evs(2) have "list_all (\<lambda>c. map_of c q = map_of (checkpoint_data st) q) (snapshots evs)"
      by (simp add: cd1 u)
    then have "list_all (\<lambda>c. map_of c q = map_of (checkpoint_data st) q)
        (snapshots ((replicate k (Requested p i) @
           [Appended xs, Saved (AList.update p (Offset i1) (checkpoint_data st))]) @ evs))"
      by (simp add: snapshots_append u)
    with extends_trans [OF again(3) evs(1)] show ?thesis by blast
  qed
qed

text \<open>
  Claim C10. While the pages of one project are ingested, the entry of every other project
  \<open>q\<close> stays as it is: in the in-memory mapping, and in every snapshot that is written to
  the checkpoint file (each holds for \<open>q\<close> the value the mapping had before). So the
  entry of \<open>q\<close> in the file after a save is the entry before it, whenever file and mapping
  agreed on \<open>q\<close> before.
\<close>

theorem checkpoint_frame:
  assumes "q \<noteq> project" and "fetch_loop env project current_index total_issues st = (how, st')"
  shows "map_of (checkpoint_data st') q = map_of (checkpoint_data st) q \<and>
         (\<exists>evs. trace st' = trace st @ evs \<and>
                list_all (\<lambda>c. map_of c q = map_of (checkpoint_data st) q) (snapshots evs)) \<and>
         (if map_of (checkpoint_file st) q = map_of (checkpoint_data st) q
          then map_of (checkpoint_file st') q = map_of (checkpoint_file st) q
          else map_of (checkpoint_file st') q = map_of (checkpoint_file st) q \<or>
               map_of (checkpoint_file st') q = map_of (checkpoint_data st) q)"
proof -
  from fetch_loop_frame [OF assms] obtain evs where
    evs: "extends st evs st'"
      "list_all (\<lambda>c. map_of c q = map_of (checkpoint_data st) q) (snapshots evs)" by blast
  from evs(1) have d: "checkpoint_data st' = persisted_after (checkpoint_data st) evs"
    and f: "checkpoint_file st' = persisted_after (checkpoint_file st) evs"
    and t: "trace st' = trace st @ evs"
    by (simp_all add: extends_def)
  have 1: "map_of (checkpoint_data st') q = map_of (checkpoint_data st) q"
    unfolding d by (rule persisted_after_frame [OF evs(2) refl])
  have 2: "map_of (checkpoint_file st') q = map_of (checkpoint_file st) q \<or>
           map_of (checkpoint_file st') q = map_of (checkpoint_data st) q"
  proof (cases "snapshots evs = []")
    case True
    then show ?thesis by (simp add: f persisted_after_snapshots)
  next
    case False
    then have "last (snapshots evs) \<in> set (snapshots evs)" by simp
    with evs(2) have "map_of (last (snapshots evs)) q = map_of (checkpoint_data st) q"
      by (simp add: list_all_iff)
    with False show ?thesis by (simp add: f persisted_after_snapshots)
  qed
  from 1 2 t evs(2) show ?thesis by auto
qed

theorem checkpoint_frame_witness:
  "fetch_loop small_server ''A'' 0 (- 1) (fresh_scraper [''A'', ''B''])
     = (Break, snd (fetch_loop small_server ''A'' 0 (- 1) (fresh_scraper [''A'', ''B'']))) \<and>
   snapshots (trace (snd (fetch_loop small_server ''A'' 0 (- 1) (fresh_scraper [''A'', ''B'']))))
     = [[(''A'', Offset 2), (''B'', Offset 0)], [(''A'', Offset 3), (''B'', Offset 0)],
        [(''A'', COMPLETED), (''B'', Offset 0)]] \<and>
   map_of (checkpoint_data (snd (fetch_loop small_server ''A'' 0 (- 1) (fresh_scraper [''A'', ''B''])))) ''B''
     = Some (Offset 0) \<and>
   map_of (checkpoint_file (snd (fetch_loop small_server ''A'' 0 (- 1) (fresh_scraper [''A'', ''B''])))) ''B''
     = Some (Offset 0)"
proof -
  have ne: "''B'' \<noteq> ''A''" by simp
  have l: "fetch_loop small_server ''A'' 0 (- 1) (fresh_scraper [''A'', ''B''])
     = (Break, snd (fetch_loop small_server ''A'' 0 (- 1) (fresh_scraper [''A'', ''B''])))"
    by code_simp
  have s: "snapshots (trace (snd (fetch_loop small_server ''A'' 0 (- 1) (fresh_scraper [''A'', ''B'']))))
     = [[(''A'', Offset 2), (''B'', Offset 0)], [(''A'', Offset 3), (''B'', Offset 0)],
        [(''A'', COMPLETED), (''B'', Offset 0)]]"
    by code_simp
  have b: "map_of (checkpoint_data (fresh_scraper [''A'', ''B''])) ''B'' = Some (Offset 0)"
    "map_of (checkpoint_file (fresh_scraper [''A'', ''B''])) ''B'' = Some (Offset 0)"
    by (simp_all add: fresh_scraper_def)
  from checkpoint_frame [OF ne l] l s b show ?thesis by simp
qed

subsection \<open>What a crash during a save leaves in the checkpoint file\<close>

lemma json_dump_nonempty: "json_dump cp \<noteq> []"
  by (simp add: json_dump_def)

lemma disk_states_set:
  "set (save_checkpoint_disk_states old cp) =
     insert old ((\<lambda>n. take n (json_dump cp)) ` {0..<Suc (length (json_dump cp))})"
  by (simp add: save_checkpoint_disk_states_def del: upt_Suc)

lemma truncated_in_disk_states: "[] \<in> set (save_checkpoint_disk_states old cp)"
proof -
  have "take 0 (json_dump cp) \<in> (\<lambda>n. take n (json_dump cp)) ` {0..<Suc (length (json_dump cp))}"
    by (rule imageI) simp
  then show ?thesis by (simp add: disk_states_set)
qed

text \<open>
  Claim C1, as it is stated, fails: the save opens the checkpoint file for writing, which
  empties it, before the new text is written. A crash right after leaves the empty file,
  which is neither the previous snapshot nor the new one.
\<close>

theorem save_not_atomic:
  "\<not> (\<forall>s \<in> set (save_checkpoint_disk_states (json_dump [(''SPARK'', Offset 0)]) [(''SPARK'', Offset 100)]).
        s = json_dump [(''SPARK'', Offset 0)] \<or> s = json_dump [(''SPARK'', Offset 100)])"
proof
  assume "\<forall>s \<in> set (save_checkpoint_disk_states (json_dump [(''SPARK'', Offset 0)]) [(''SPARK'', Offset 100)]).
        s = json_dump [(''SPARK'', Offset 0)] \<or> s = json_dump [(''SPARK'', Offset 100)]"
  with truncated_in_disk_states
  have "[] = json_dump [(''SPARK'', Offset 0)] \<or> [] = json_dump [(''SPARK'', Offset 100)]"
    by blast
  then show False by (simp add: json_dump_def)
qed

text \<open>
  Claim C1, amended. The save overwrites the checkpoint file in place. A crash during a
  save leaves the previous text (when it comes before the file is opened) or a part of
  the new text, from its start: the empty file right after the file was opened, a partial
  text, or the whole new snapshot, which is never empty. A save that completes leaves the
  new snapshot.
\<close>

theorem save_disk_states:
  assumes "s \<in> set (save_checkpoint_disk_states old cp)"
  shows "(s = old \<or> (\<exists>n\<le>length (json_dump cp). s = take n (json_dump cp))) \<and>
         hd (save_checkpoint_disk_states old cp) = old \<and>
         save_checkpoint_disk_states old cp ! 1 = [] \<and>
         last (save_checkpoint_disk_states old cp) = json_dump cp \<and>
         json_dump cp \<noteq> []"
proof -
  have 1: "s = old \<or> (\<exists>n\<le>length (json_dump cp). s = take n (json_dump cp))"
  proof (cases "s = old")
    case True
    then show ?thesis by simp
  next
    case False
    with assms obtain n where "n < Suc (length (json_dump cp))" "s = take n (json_dump cp)"
      unfolding disk_states_set by auto
    then have "n \<le> length (json_dump cp) \<and> s = take n (json_dump cp)" by simp
    then show ?thesis by blast
  qed
  have 2: "save_checkpoint_disk_states old cp ! 1 = []"
    by (simp add: save_checkpoint_disk_states_def upt_rec [of 0] del: upt_Suc)
  have 3: "last (save_checkpoint_disk_states old cp) = json_dump cp"
    by (simp add: save_checkpoint_disk_states_def last_map)
  have 4: "hd (save_checkpoint_disk_states old cp) = old"
    by (simp add: save_checkpoint_disk_states_def)
  from 1 2 3 4 json_dump_nonempty show ?thesis by blast
qed

theorem save_disk_states_witness:
  "[] \<in> set (save_checkpoint_disk_states (json_dump [(''SPARK'', Offset 0)]) [(''SPARK'', Offset 100)]) \<and>
   [] \<noteq> json_dump [(''SPARK'', Offset 0)] \<and>
   (\<exists>n\<le>length (json_dump [(''SPARK'', Offset 100)]). [] = take n (json_dump [(''SPARK'', Offset 100)])) \<and>
   last (save_checkpoint_disk_states (json_dump [(''SPARK'', Offset 0)]) [(''SPARK'', Offset 100)])
     = json_dump [(''SPARK'', Offset 100)]"
proof -
  have m: "[] \<in> set (save_checkpoint_disk_states (json_dump [(''SPARK'', Offset 0)]) [(''SPARK'', Offset 100)])"
    by (rule truncated_in_disk_states)
  have n: "[] \<noteq> json_dump [(''SPARK'', Offset 0)]"
    using json_dump_nonempty [of "[(''SPARK'', Offset 0)]"] by simp
  from save_disk_states [OF m] n have
    "[] = json_dump [(''SPARK'', Offset 0)] \<or>
       (\<exists>n\<le>length (json_dump [(''SPARK'', Offset 100)]). [] = take n (json_dump [(''SPARK'', Offset 100)]))"
    and "last (save_checkpoint_disk_states (json_dump [(''SPARK'', Offset 0)]) [(''SPARK'', Offset 100)])
     = json_dump [(''SPARK'', Offset 100)]"
    by blast+
  with m n show ?thesis by blast
qed

end
